theory Spec2Isabelle
  imports Complex_Main "HOL-Library.Sublist"
begin

section \<open>Points\<close>

text \<open>
  Modelled from the spec: \<open>point_t\<close> is \<open>flecsi::point<double,D>\<close>, declared outside the
  sources at hand. The gravitation code indexes points with the constants 0, 1, 2 and the
  transport record has 9 and 27 tensor slots, so the embedding fixes D = 3. A \<open>double\<close> is
  read as a real number: rounding, infinities and NaN are left out, except that a division
  by zero is never allowed to compare below a threshold (see \<open>MAC\<close>).
\<close>

datatype point_t = Point real real real

text \<open>\<open>p[i]\<close> for the indices the code uses (0, 1, 2).\<close>

fun coord :: "point_t \<Rightarrow> nat \<Rightarrow> real" where
  "coord (Point x y z) i = (if i = 0 then x else if i = 1 then y else z)"

text \<open>\<open>p[i] = v\<close>.\<close>

fun set_coord :: "point_t \<Rightarrow> nat \<Rightarrow> real \<Rightarrow> point_t" where
  "set_coord (Point x y z) i v =
     (if i = 0 then Point v y z else if i = 1 then Point x v z else Point x y v)"

instantiation point_t :: ab_group_add
begin

definition zero_point_t :: point_t where
  "zero_point_t = Point 0 0 0"

fun plus_point_t :: "point_t \<Rightarrow> point_t \<Rightarrow> point_t" where
  "plus_point_t (Point a b c) (Point x y z) = Point (a + x) (b + y) (c + z)"

fun minus_point_t :: "point_t \<Rightarrow> point_t \<Rightarrow> point_t" where
  "minus_point_t (Point a b c) (Point x y z) = Point (a - x) (b - y) (c - z)"

fun uminus_point_t :: "point_t \<Rightarrow> point_t" where
  "uminus_point_t (Point a b c) = Point (- a) (- b) (- c)"

instance
proof
  fix p q r :: point_t
  show "p + q + r = p + (q + r)"
    by (cases p, cases q, cases r) simp
  show "p + q = q + p"
    by (cases p, cases q) simp
  show "0 + p = p"
    by (cases p) (simp add: zero_point_t_def)
  show "- p + p = 0"
    by (cases p) (simp add: zero_point_t_def)
  show "p - q = p + - q"
    by (cases p, cases q) simp
qed

end

text \<open>Scalar times point, \<open>s * p\<close>.\<close>

fun point_scale :: "real \<Rightarrow> point_t \<Rightarrow> point_t" where
  "point_scale s (Point x y z) = Point (s * x) (s * y) (s * z)"

text \<open>
  Modelled from the spec: elementwise strict comparison of points (\<open>operator<\<close>,
  \<open>operator>\<close> of \<open>flecsi::point\<close>), used as the bounding-box containment test.
\<close>

fun point_lt :: "point_t \<Rightarrow> point_t \<Rightarrow> bool" where
  "point_lt (Point a b c) (Point x y z) = (a < x \<and> b < y \<and> c < z)"

definition point_gt :: "point_t \<Rightarrow> point_t \<Rightarrow> bool" where
  "point_gt p q = point_lt q p"

text \<open>Modelled from the spec: \<open>flecsi::distance\<close>, the Euclidean distance.\<close>

definition distance :: "point_t \<Rightarrow> point_t \<Rightarrow> real" where
  "distance p q =
     sqrt ((coord p 0 - coord q 0)\<^sup>2 + (coord p 1 - coord q 1)\<^sup>2 + (coord p 2 - coord q 2)\<^sup>2)"

section \<open>Failed assertions\<close>

text \<open>Every \<open>assert\<close> of the source is a branch that ends the step with an error value.\<close>

datatype error =
    Assert_own_cells_order
  | Assert_dist_positive
  | Assert_same_position
  | Assert_same_id
  | Assert_hessian_below_1000
  | Assert_sink_not_null
  | Assert_subparts_not_empty
  | Collective_failure
  | Int_overflow

section \<open>Point contribution: \<open>computeAcceleration\<close>\<close>

text \<open>
  A \<open>double*\<close> tensor argument is a map from slot index to value. The three accumulators
  \<open>fc\<close>, \<open>jacobi\<close>, \<open>hessian\<close> that the source passes by reference travel as a triple.
\<close>

type_synonym tensor = "nat \<Rightarrow> real"
type_synonym tensors = "point_t \<times> tensor \<times> tensor"

text \<open>The body of the \<open>i, j\<close> loop of the Jacobian.\<close>

definition jacobi_step :: "real \<Rightarrow> real \<Rightarrow> point_t \<Rightarrow> nat \<Rightarrow> nat \<Rightarrow> tensor \<Rightarrow> tensor" where
  "jacobi_step jacobicoeff dst diffPos i j jacobi =
     (if i = j
      then jacobi(i * 3 + j := jacobi (i * 3 + j) +
             jacobicoeff * (1 - 3 * coord diffPos i * coord diffPos j / (dst * dst)))
      else jacobi(i * 3 + j := jacobi (i * 3 + j) +
             jacobicoeff * (- 3 * coord diffPos i * coord diffPos j / (dst * dst))))"

text \<open>
  The C++ condition \<open>i==j==k\<close> parses as \<open>(i==j)==k\<close>: the truth value of \<open>i==j\<close>,
  promoted to the integer 0 or 1, is compared with \<open>k\<close>.
\<close>

definition chained_eq :: "nat \<Rightarrow> nat \<Rightarrow> nat \<Rightarrow> bool" where
  "chained_eq i j k = ((if i = j then (1::nat) else 0) = k)"

definition firstterm :: "point_t \<Rightarrow> nat \<Rightarrow> nat \<Rightarrow> nat \<Rightarrow> real" where
  "firstterm diffPos i j k =
     (let f0 = 0;
          f1 = (if i = j then f0 + coord diffPos k else f0);
          f2 = (if j = k then f1 + coord diffPos i else f1);
          f3 = (if k = i then f2 + coord diffPos j else f2)
      in if \<not> chained_eq i j k then f3 * 3 else f3)"

text \<open>The body of the \<open>i, j, k\<close> loop of the Hessian.\<close>

definition hessian_step ::
  "real \<Rightarrow> real \<Rightarrow> point_t \<Rightarrow> nat \<Rightarrow> nat \<Rightarrow> nat \<Rightarrow> tensor \<Rightarrow> tensor" where
  "hessian_step hessiancoeff dst diffPos i j k hessian =
     (let matrixPos = i * 9;
          position = matrixPos + j * 3 + k
      in hessian(position := hessian position +
           (hessiancoeff * firstterm diffPos i j k +
            hessiancoeff * (- 5) / (dst * dst) *
              coord diffPos i * coord diffPos j * coord diffPos k)))"

text \<open>
  \<open>assert(dist > 0.0)\<close> is the first branch. \<open>assert(!std::isnan(jacobi[i*3+j]))\<close> cannot
  fail on real numbers and has no branch.
\<close>

definition computeAcceleration ::
  "point_t \<Rightarrow> point_t \<Rightarrow> real \<Rightarrow> tensors \<Rightarrow> error + tensors" where
  "computeAcceleration sinkPosition sourcePosition sourceMass t =
     (case t of (fc, jacobi, hessian) \<Rightarrow>
        let dst = distance sinkPosition sourcePosition in
        if \<not> dst > 0 then Inl Assert_dist_positive
        else
          let diffPos = sinkPosition - sourcePosition;
              fc' = fc + point_scale (- sourceMass / (dst * dst * dst)) diffPos;
              jacobicoeff = - sourceMass / (dst * dst * dst);
              jacobi' = fold (\<lambda>i. fold (\<lambda>j. jacobi_step jacobicoeff dst diffPos i j) [0..<3])
                          [0..<3] jacobi;
              hessiancoeff = - 3 * sourceMass / (dst * dst * dst * dst * dst);
              hessian' = fold (\<lambda>i. fold (\<lambda>j. fold (\<lambda>k.
                             hessian_step hessiancoeff dst diffPos i j k) [0..<3]) [0..<3])
                           [0..<3] hessian
          in Inr (fc', jacobi', hessian'))"

text \<open>
  The Hessian increment as the specification words it: \<open>\<beta> \<cdot> [T - (5/d\<^sup>2) r\<^sub>i r\<^sub>j r\<^sub>k]\<close> with
  \<open>\<beta> = -3m/d\<^sup>5\<close>, \<open>T = \<delta>\<^sub>i\<^sub>j r\<^sub>k + \<delta>\<^sub>j\<^sub>k r\<^sub>i + \<delta>\<^sub>i\<^sub>k r\<^sub>j\<close>, and \<open>T\<close> scaled by 3 exactly when
  the three indices are not all equal.
\<close>

definition kron :: "nat \<Rightarrow> nat \<Rightarrow> real" where
  "kron i j = (if i = j then 1 else 0)"

definition hessian_increment_spec :: "point_t \<Rightarrow> point_t \<Rightarrow> real \<Rightarrow> nat \<Rightarrow> nat \<Rightarrow> nat \<Rightarrow> real" where
  "hessian_increment_spec sinkPosition sourcePosition m i j k =
     (let r = sinkPosition - sourcePosition;
          d = distance sinkPosition sourcePosition;
          \<beta> = - 3 * m / d ^ 5;
          T = kron i j * coord r k + kron j k * coord r i + kron i k * coord r j;
          T' = (if \<not> (i = j \<and> j = k) then 3 * T else T)
      in \<beta> * (T' - 5 / d\<^sup>2 * coord r i * coord r j * coord r k))"

section \<open>Bodies, branches and the transport record\<close>

text \<open>
  Modelled from the spec: the body, the entity a leaf holds for it, and the branch are
  declared in \<open>tree.h\<close>, which is not among the sources at hand. A body carries position,
  mass and a mutable acceleration. A leaf iterates over holders, each with its own copy of
  position and mass, the locality flag and the pointer \<open>getBody()\<close>; the pointer is an
  address into the body store.
\<close>

type_synonym branch_id_t = nat

record body =
  getPosition_b :: point_t
  getMass_b :: real
  getAcceleration :: point_t

type_synonym store = "nat \<Rightarrow> body"

text \<open>\<open>p->setAcceleration(p->getAcceleration() + \<Delta>)\<close>, the only write to a body.\<close>

definition add_acceleration :: "nat \<Rightarrow> point_t \<Rightarrow> store \<Rightarrow> store" where
  "add_acceleration p \<Delta> st = st(p := (st p)\<lparr>getAcceleration := getAcceleration (st p) + \<Delta>\<rparr>)"

text \<open>The setter on its own, \<open>p->setAcceleration(v)\<close>: an assignment.\<close>

definition setAcceleration :: "nat \<Rightarrow> point_t \<Rightarrow> store \<Rightarrow> store" where
  "setAcceleration p v st = st(p := (st p)\<lparr>getAcceleration := v\<rparr>)"

record body_holder =
  getPosition_h :: point_t
  getMass_h :: real
  is_local :: bool
  getBody :: nat

text \<open>
  Modelled from the spec: a branch exposes its identifier, centre of mass, subtree mass,
  bounding box, the leaf discriminator, its entities when it is a leaf, and its children;
  \<open>children b\<close> is the sequence \<open>tree.child(b, 0), \<dots>, tree.child(b, 2\<^sup>D - 1)\<close>.
\<close>

datatype branch_t =
  Branch (branch_id: branch_id_t) (getPosition: point_t) (getMass: real)
    (getBMin: point_t) (getBMax: point_t) (is_leaf: bool)
    (entities: "body_holder list") (children: "branch_t list")

text \<open>Modelled from the spec: \<open>tree.get(id)\<close>, the branch of the tree with this identifier.\<close>

fun tree_get :: "branch_t \<Rightarrow> branch_id_t \<Rightarrow> branch_t option"
  and tree_get_children :: "branch_t list \<Rightarrow> branch_id_t \<Rightarrow> branch_t option" where
  "tree_get (Branch i p m lo hi lf es cs) key =
     (if i = key then Some (Branch i p m lo hi lf es cs) else tree_get_children cs key)"
| "tree_get_children [] key = None"
| "tree_get_children (c # cs) key =
     (case tree_get c key of Some b \<Rightarrow> Some b | None \<Rightarrow> tree_get_children cs key)"

record mpi_cell_t =
  position :: point_t
  fc :: point_t
  dfcdr :: tensor
  dfcdrdr :: tensor
  bmax :: point_t
  bmin :: point_t
  cell_id :: branch_id_t

text \<open>The constructor \<open>mpi_cell_t(position_, bmin_, bmax_, id_)\<close>; the tensors start at zero.\<close>

definition mpi_cell :: "point_t \<Rightarrow> point_t \<Rightarrow> point_t \<Rightarrow> branch_id_t \<Rightarrow> mpi_cell_t" where
  "mpi_cell position' bmin' bmax' id' =
     \<lparr>position = position', fc = 0, dfcdr = (\<lambda>_. 0), dfcdrdr = (\<lambda>_. 0),
      bmax = bmax', bmin = bmin', cell_id = id'\<rparr>"

section \<open>Frontier selection: the traversal of \<open>mpi_exchange_cells\<close>\<close>

text \<open>The lambda \<open>traverse\<close>; \<open>vcells\<close> is the vector it pushes onto.\<close>

fun traverse :: "real \<Rightarrow> branch_t \<Rightarrow> mpi_cell_t list \<Rightarrow> mpi_cell_t list"
  and traverse_children :: "real \<Rightarrow> branch_t list \<Rightarrow> mpi_cell_t list \<Rightarrow> mpi_cell_t list" where
  "traverse maxMass (Branch i p m lo hi lf es cs) vcells =
     (if m = 0 then vcells
      else if lf \<or> m < maxMass then vcells @ [mpi_cell p lo hi i]
      else traverse_children maxMass cs vcells)"
| "traverse_children maxMass [] vcells = vcells"
| "traverse_children maxMass (c # cs) vcells =
     traverse_children maxMass cs (traverse maxMass c vcells)"

text \<open>
  The same traversal, recording which branch each pushed cell was made from and where that
  branch sits in the tree: the path of child indices from the root.
\<close>

fun frontier :: "real \<Rightarrow> branch_t \<Rightarrow> (nat list \<times> branch_t) list"
  and frontier_children :: "real \<Rightarrow> nat \<Rightarrow> branch_t list \<Rightarrow> (nat list \<times> branch_t) list" where
  "frontier maxMass (Branch i p m lo hi lf es cs) =
     (if m = 0 then []
      else if lf \<or> m < maxMass then [([], Branch i p m lo hi lf es cs)]
      else frontier_children maxMass 0 cs)"
| "frontier_children maxMass n [] = []"
| "frontier_children maxMass n (c # cs) =
     map (\<lambda>(path, b). (n # path, b)) (frontier maxMass c) @ frontier_children maxMass (Suc n) cs"

text \<open>The branch reached from \<open>b\<close> along a path of child indices.\<close>

fun branch_at :: "branch_t \<Rightarrow> nat list \<Rightarrow> branch_t option" where
  "branch_at b [] = Some b"
| "branch_at b (n # path) =
     (if n < length (children b) then branch_at (children b ! n) path else None)"

definition cell_of :: "branch_t \<Rightarrow> mpi_cell_t" where
  "cell_of b = mpi_cell (getPosition b) (getBMin b) (getBMax b) (branch_id b)"

text \<open>Every internal branch weighs what its children weigh together.\<close>

fun mass_consistent :: "branch_t \<Rightarrow> bool"
  and mass_consistent_children :: "branch_t list \<Rightarrow> bool" where
  "mass_consistent (Branch i p m lo hi lf es cs) =
     (if lf then True else m = sum_list (map getMass cs) \<and> mass_consistent_children cs)"
| "mass_consistent_children [] = True"
| "mass_consistent_children (c # cs) = (mass_consistent c \<and> mass_consistent_children cs)"

section \<open>Cell-to-cell traversal\<close>

text \<open>
  \<open>dmax/disttoc < macangle\<close>. The box diagonal is never negative, so in IEEE arithmetic a
  zero \<open>disttoc\<close> makes the quotient \<open>+\<infinity>\<close> or NaN, and the comparison false; HOL's
  \<open>x / 0 = 0\<close> must not stand in for that.
\<close>

definition MAC :: "branch_t \<Rightarrow> branch_t \<Rightarrow> real \<Rightarrow> bool" where
  "MAC sink source macangle =
     (let dmax = distance (getBMin source) (getBMax source);
          disttoc = distance (getPosition sink) (getPosition source)
      in if disttoc = 0 then False else dmax / disttoc < macangle)"

text \<open>A loop that stops at the first failed assertion.\<close>

fun for_loop :: "'i list \<Rightarrow> ('i \<Rightarrow> 's \<Rightarrow> error + 's) \<Rightarrow> 's \<Rightarrow> error + 's" where
  "for_loop [] f s = Inr s"
| "for_loop (x # xs) f s = (case f x s of Inl e \<Rightarrow> Inl e | Inr s' \<Rightarrow> for_loop xs f s')"

text \<open>The body of the loop over the entities of a source leaf.\<close>

definition c2c_body :: "branch_t \<Rightarrow> body_holder \<Rightarrow> tensors \<Rightarrow> error + tensors" where
  "c2c_body sink bi t =
     (if is_local bi
      then (if \<not> (point_lt (getPosition_h bi) (getBMax sink) \<and>
                   point_gt (getPosition_h bi) (getBMin sink))
            then computeAcceleration (getPosition sink) (getPosition_h bi) (getMass_h bi) t
            else Inr t)
      else Inr t)"

text \<open>
  The accumulators travel with the lines written to \<open>std::cout\<close>. The \<open>tree\<close> argument
  of the source only serves \<open>tree.child\<close>.
\<close>

fun tree_traversal_c2c ::
    "branch_t \<Rightarrow> branch_t \<Rightarrow> tensors \<times> string list \<Rightarrow> real \<Rightarrow> error + tensors \<times> string list"
  and c2c_children ::
    "branch_t \<Rightarrow> branch_t list \<Rightarrow> tensors \<times> string list \<Rightarrow> real \<Rightarrow> error + tensors \<times> string list"
  where
  "tree_traversal_c2c sink (Branch i p m lo hi lf es cs) (t, out) macangle =
     (let source = Branch i p m lo hi lf es cs;
          out' = (if branch_id sink = i then out @ [''Same Id''] else out)
      in if m = 0 then Inr (t, out')
         else if getBMin sink = lo \<and> getBMax sink = hi then Inr (t, out')
         else if point_lt (getBMin sink) lo \<and> point_gt (getBMax sink) hi then Inr (t, out')
         else if MAC sink source macangle
         then (case computeAcceleration (getPosition sink) p m t of
                 Inl e \<Rightarrow> Inl e | Inr t' \<Rightarrow> Inr (t', out'))
         else if lf
         then (case for_loop es (c2c_body sink) t of
                 Inl e \<Rightarrow> Inl e | Inr t' \<Rightarrow> Inr (t', out'))
         else c2c_children sink cs (t, out') macangle)"
| "c2c_children sink [] acc macangle = Inr acc"
| "c2c_children sink (c # cs) acc macangle =
     (case tree_traversal_c2c sink c acc macangle of
        Inl e \<Rightarrow> Inl e | Inr acc' \<Rightarrow> c2c_children sink cs acc' macangle)"

section \<open>Cell-to-particle descent\<close>

text \<open>The expansion the loop body evaluates for one entity: \<open>grav\<close> after the three loop nests.\<close>

definition c2p_grav :: "point_t \<Rightarrow> tensors \<Rightarrow> point_t \<Rightarrow> point_t" where
  "c2p_grav sinkPosition t pos =
     (case t of (force, jacobi, hessian) \<Rightarrow>
        let diffPos = pos - sinkPosition;
            grav = force;
            grav1 = fold (\<lambda>i. fold (\<lambda>j g.
                      set_coord g i (coord g i + jacobi (i * 3 + j) * coord diffPos j)) [0..<3])
                      [0..<3] grav;
            tmpMatrix = fold (\<lambda>i. fold (\<lambda>j. fold (\<lambda>k (M::tensor).
                      M(i * 3 + j := M (i * 3 + j) + coord diffPos k * hessian (i * 9 + j + k * 3)))
                      [0..<3]) [0..<3]) [0..<3] (\<lambda>_. 0);
            tmpVector = fold (\<lambda>i. fold (\<lambda>j (V::tensor).
                      V(i := V i + tmpMatrix (i * 3 + j) * coord diffPos j)) [0..<3])
                      [0..<3] (\<lambda>_. 0)
        in fold (\<lambda>i g. set_coord g i (coord g i + 1 / 2 * tmpVector i)) [0..<3] grav1)"

text \<open>
  The state of the descent: the body store, the vector \<open>neighbors\<close> of body pointers and the
  counter \<open>nbody\<close>.
\<close>

type_synonym c2p_state = "store \<times> nat list \<times> int"

definition c2p_body :: "point_t \<Rightarrow> tensors \<Rightarrow> body_holder \<Rightarrow> c2p_state \<Rightarrow> c2p_state" where
  "c2p_body sinkPosition t bi s =
     (case s of (st, neighbors, nbody) \<Rightarrow>
        if \<not> is_local bi then s
        else (add_acceleration (getBody bi) (c2p_grav sinkPosition t (getPosition_h bi)) st,
              neighbors @ [getBody bi], nbody + 1))"

fun sink_traversal_c2p :: "branch_t \<Rightarrow> point_t \<Rightarrow> tensors \<Rightarrow> c2p_state \<Rightarrow> c2p_state"
  and c2p_children :: "branch_t list \<Rightarrow> point_t \<Rightarrow> tensors \<Rightarrow> c2p_state \<Rightarrow> c2p_state" where
  "sink_traversal_c2p (Branch i p m lo hi lf es cs) sinkPosition t s =
     (if m \<le> 0 then s
      else if lf then fold (c2p_body sinkPosition t) es s
      else c2p_children cs sinkPosition t s)"
| "c2p_children [] sinkPosition t s = s"
| "c2p_children (c # cs) sinkPosition t s =
     c2p_children cs sinkPosition t (sink_traversal_c2p c sinkPosition t s)"

section \<open>The three phases of a gravity step\<close>

text \<open>
  What one process holds, as the three phases read it: the local tree as its accessors
  return it, the body store, the two buffers of \<open>tree_colorer\<close> and the lines written to
  \<open>std::cout\<close>.
\<close>

record state =
  tree :: branch_t
  bodies :: store
  recvCOM :: "mpi_cell_t list"
  nrecvCOM :: "nat list"
  cout :: "string list"

text \<open>
  Modelled from the spec: the communicator as one process sees it. \<open>peer_vcells r\<close> is the
  frontier rank \<open>r\<close> submits to the scatter and \<open>peer_recvCOM r\<close> the catalog rank \<open>r\<close> holds
  when the gather starts; the entries of the process itself are taken from its own state.
  All-gather and all-gatherv concatenate in ascending rank order; all-to-allv delivers from
  every rank the slice of its catalog that holds the receiver's cells.
\<close>

record mpi_env =
  comm_rank :: nat
  comm_size :: nat
  peer_vcells :: "nat \<Rightarrow> mpi_cell_t list"
  peer_recvCOM :: "nat \<Rightarrow> mpi_cell_t list"

text \<open>
  Modelled from the spec: \<open>sizeof(mpi_cell_t)\<close>, a fixed positive size; 48 doubles and an
  8-byte identifier.
\<close>

definition sizeof_mpi_cell_t :: nat where
  "sizeof_mpi_cell_t = 392"

text \<open>
  The counts, byte counts and displacements of the source are C \<open>int\<close>s. \<open>int32 n\<close> is
  what an \<open>int\<close> holds once the number \<open>n\<close> has been stored in it: the conversion from
  \<open>size_t\<close> in \<open>nrecvCOM[i] *= sizeof(mpi_cell_t)\<close> keeps the low 32 bits in two's
  complement, so 6000000 cells give the byte count \<open>-1942967296\<close>. The source goes on with
  the wrapped number and hands it to the collective, which then no longer describes the
  buffers. Such a run is not followed: where a number an \<open>int\<close> is to hold does not fit,
  the phase ends with \<open>Int_overflow\<close>.
\<close>

definition int32 :: "nat \<Rightarrow> int" where
  "int32 n = (int n + 2147483648) mod 4294967296 - 2147483648"

definition fits_int :: "nat \<Rightarrow> bool" where
  "fits_int n \<longleftrightarrow> int32 n = int n"

text \<open>Displacements: \<open>offsets[0] = 0\<close>, \<open>offsets[i+1] = offsets[i] + counts[i]\<close>.\<close>

fun offsets :: "nat \<Rightarrow> nat list \<Rightarrow> nat list" where
  "offsets acc [] = []"
| "offsets acc (n # ns) = acc # offsets (acc + n) ns"

text \<open>
  The \<open>int\<close>s of \<open>mpi_exchange_cells\<close>: the cell counts gathered into \<open>nrecvCOM\<close>, their
  running sum \<open>totalrecv\<close>, the byte counts that replace them and the displacements
  \<open>noffsets\<close>.
\<close>

definition mpi_exchange_cells :: "mpi_env \<Rightarrow> real \<Rightarrow> state \<Rightarrow> error + state" where
  "mpi_exchange_cells env maxMass s =
     (let rank = comm_rank env;
          sz = comm_size env;
          vcells = traverse maxMass (tree s) [];
          sent = (\<lambda>r. if r = rank then vcells else peer_vcells env r);
          counts = map (\<lambda>r. length (sent r)) [0..<sz];
          totalrecv = sum_list counts;
          nrecv = map (\<lambda>n. n * sizeof_mpi_cell_t) counts;
          noffsets = offsets 0 nrecv;
          recv = concat (map sent [0..<sz])
      in if \<not> list_all fits_int (counts @ [totalrecv] @ nrecv @ noffsets)
         then Inl Int_overflow
         else if list_all (\<lambda>i. position (vcells ! i) =
                position (recv ! (i + noffsets ! rank div sizeof_mpi_cell_t)))
              [0..<length vcells]
         then Inr (s\<lparr>recvCOM := recv, nrecvCOM := nrecv\<rparr>)
         else Inl Assert_own_cells_order)"

text \<open>
  The body of the parallel loop of \<open>mpi_compute_fmm\<close>. The sink is a fresh branch that is
  given the cell's position and box only (\<open>setId\<close> is commented out): \<open>null_id\<close> is the
  identifier a default-constructed branch carries. Each iteration writes its own cell, so
  the iterations are run in sequence.
\<close>

definition compute_cell ::
  "branch_t \<Rightarrow> branch_id_t \<Rightarrow> real \<Rightarrow> mpi_cell_t \<Rightarrow> string list \<Rightarrow> error + mpi_cell_t \<times> string list"
  where
  "compute_cell tree_root null_id macangle cell out =
     (let sink = Branch null_id (position cell) 0 (bmin cell) (bmax cell) True [] []
      in case tree_traversal_c2c sink tree_root ((fc cell, dfcdr cell, dfcdrdr cell), out) macangle of
           Inl e \<Rightarrow> Inl e
         | Inr ((f, j, h), out') \<Rightarrow> Inr (cell\<lparr>fc := f, dfcdr := j, dfcdrdr := h\<rparr>, out'))"

fun compute_cells ::
  "branch_t \<Rightarrow> branch_id_t \<Rightarrow> real \<Rightarrow> mpi_cell_t list \<Rightarrow> string list \<Rightarrow>
     error + mpi_cell_t list \<times> string list" where
  "compute_cells tree_root null_id macangle [] out = Inr ([], out)"
| "compute_cells tree_root null_id macangle (cell # cells) out =
     (case compute_cell tree_root null_id macangle cell out of
        Inl e \<Rightarrow> Inl e
      | Inr (cell', out') \<Rightarrow>
          (case compute_cells tree_root null_id macangle cells out' of
             Inl e \<Rightarrow> Inl e
           | Inr (cells', out'') \<Rightarrow> Inr (cell' # cells', out'')))"

definition mpi_compute_fmm :: "branch_id_t \<Rightarrow> real \<Rightarrow> state \<Rightarrow> error + state" where
  "mpi_compute_fmm null_id macangle s =
     (case compute_cells (tree s) null_id macangle (recvCOM s) (cout s) of
        Inl e \<Rightarrow> Inl e
      | Inr (cells, out) \<Rightarrow> Inr (s\<lparr>recvCOM := cells, cout := out\<rparr>))"

text \<open>The reduction of \<open>mpi_gather_cells\<close>: the body of the loop over \<open>k\<close>.\<close>

definition reduce_k :: "nat \<Rightarrow> nat \<Rightarrow> nat \<Rightarrow> nat \<Rightarrow> mpi_cell_t list \<Rightarrow> error + mpi_cell_t list" where
  "reduce_k ncells i j k recvcells =
     (let src = recvcells ! (i * ncells + j);
          c = recvcells ! j;
          c1 = (if k < 9 then c\<lparr>dfcdr := (dfcdr c)(k := dfcdr c k + dfcdr src k)\<rparr> else c);
          c2 = c1\<lparr>dfcdrdr := (dfcdrdr c1)(k := dfcdrdr c1 k + dfcdrdr src k)\<rparr>
      in if dfcdrdr c2 k < 1000 then Inr (recvcells[j := c2])
         else Inl Assert_hessian_below_1000)"

text \<open>The body of the loop over \<open>j\<close>.\<close>

definition reduce_j :: "nat \<Rightarrow> nat \<Rightarrow> nat \<Rightarrow> mpi_cell_t list \<Rightarrow> error + mpi_cell_t list" where
  "reduce_j ncells i j recvcells =
     (if position (recvcells ! j) \<noteq> position (recvcells ! (i * ncells + j))
      then Inl Assert_same_position
      else if cell_id (recvcells ! j) \<noteq> cell_id (recvcells ! (i * ncells + j))
      then Inl Assert_same_id
      else for_loop [0..<27] (reduce_k ncells i j)
             (recvcells[j := (recvcells ! j)
                \<lparr>fc := fc (recvcells ! j) + fc (recvcells ! (i * ncells + j))\<rparr>]))"

definition reduce_cells :: "nat \<Rightarrow> nat \<Rightarrow> mpi_cell_t list \<Rightarrow> error + mpi_cell_t list" where
  "reduce_cells sz ncells recvcells =
     for_loop [1..<sz] (\<lambda>i. for_loop [0..<ncells] (reduce_j ncells i)) recvcells"

text \<open>The direct sum over \<open>subparts\<close>: the body of the loop over \<open>bi\<close>.\<close>

definition direct_sum_body :: "nat list \<Rightarrow> nat \<Rightarrow> store \<Rightarrow> store" where
  "direct_sum_body subparts bi st =
     (let grav = fold (\<lambda>nb g.
            let dst = distance (getPosition_b (st bi)) (getPosition_b (st nb))
            in if dst > 0
               then g + point_scale (- getMass_b (st nb) / (dst * dst * dst))
                          (getPosition_b (st bi) - getPosition_b (st nb))
               else g) subparts 0
      in add_acceleration bi grav st)"

text \<open>The body of the loop that propagates the reduced cells into the particles.\<close>

definition gather_cell :: "branch_t \<Rightarrow> mpi_cell_t \<Rightarrow> store \<times> int \<Rightarrow> error + store \<times> int" where
  "gather_cell tree_root cell s =
     (case s of (st, nbody) \<Rightarrow>
        (case tree_get tree_root (cell_id cell) of
           None \<Rightarrow> Inl Assert_sink_not_null
         | Some sink \<Rightarrow>
             (case sink_traversal_c2p sink (getPosition sink)
                     (fc cell, dfcdr cell, dfcdrdr cell) (st, [], nbody) of
                (st', subparts, nbody') \<Rightarrow>
                  if subparts = [] then Inl Assert_subparts_not_empty
                  else Inr (fold (direct_sum_body subparts) subparts st', nbody'))))"

text \<open>
  The \<open>int\<close>s of \<open>mpi_gather_cells\<close>: the byte counts read from \<open>nrecvCOM\<close>, the product
  \<open>totalrecv\<close>, the send displacements \<open>soffsets\<close>, the receive displacements
  \<open>noffsets\<close> (multiples of the own byte count) and the product \<open>ncells*size\<close>.
\<close>

definition mpi_gather_cells :: "mpi_env \<Rightarrow> state \<Rightarrow> error + state" where
  "mpi_gather_cells env s =
     (let rank = comm_rank env;
          sz = comm_size env;
          totalrecv = nrecvCOM s ! rank * sz;
          ncells = nrecvCOM s ! rank div sizeof_mpi_cell_t;
          soffsets = offsets 0 (nrecvCOM s);
          noffsets = map (\<lambda>i. i * (nrecvCOM s ! rank)) [0..<sz];
          sent = (\<lambda>p. if p = rank then recvCOM s else peer_recvCOM env p);
          recvcells = concat (map (\<lambda>p.
                        take ncells (drop (soffsets ! rank div sizeof_mpi_cell_t) (sent p)))
                        [0..<sz])
      in if \<not> list_all fits_int (nrecvCOM s @ [totalrecv] @ soffsets @ noffsets @ [ncells * sz])
         then Inl Int_overflow
         else if length recvcells \<noteq> ncells * sz then Inl Collective_failure
         else (case reduce_cells sz ncells recvcells of
                 Inl e \<Rightarrow> Inl e
               | Inr reduced \<Rightarrow>
                   (case for_loop [0..<ncells] (\<lambda>i. gather_cell (tree s) (reduced ! i))
                           (bodies s, 0) of
                      Inl e \<Rightarrow> Inl e
                    | Inr (st, nbody) \<Rightarrow> Inr (s\<lparr>bodies := st\<rparr>))))"

text \<open>
  Modelled from the spec: the driver that runs the three phases is not among the sources;
  a gravity step is select and scatter, then compute, then gather and apply.
\<close>

definition gravity_step ::
  "mpi_env \<Rightarrow> real \<Rightarrow> real \<Rightarrow> branch_id_t \<Rightarrow> state \<Rightarrow> error + state" where
  "gravity_step env maxMass macangle null_id s =
     (case mpi_exchange_cells env maxMass s of
        Inl e \<Rightarrow> Inl e
      | Inr s1 \<Rightarrow>
          (case mpi_compute_fmm null_id macangle s1 of
             Inl e \<Rightarrow> Inl e
           | Inr s2 \<Rightarrow> mpi_gather_cells env s2))"

section \<open>Branch objects in memory\<close>

text \<open>
  Modelled from the spec: \<open>branch_t\<close> is declared in \<open>tree.h\<close>, which is not among the
  sources at hand. In the source a branch is an object that is read through its accessors
  and written through its setters. The tree owns one object for each of its branches, and
  \<open>branch_t sink;\<close> in \<open>mpi_compute_fmm\<close> is one more. Objects live at addresses:
  \<open>branch_obj\<close> is what the accessors of one object return, and a \<open>layout\<close> tells at which
  address a branch of the tree lives and where its children are (\<open>tree.root()\<close>,
  \<open>tree.child(b, i)\<close>).
\<close>

record branch_obj =
  obj_id :: branch_id_t
  obj_position :: point_t
  obj_mass :: real
  obj_bmin :: point_t
  obj_bmax :: point_t
  obj_leaf :: bool
  obj_entities :: "body_holder list"

type_synonym branch_mem = "nat \<Rightarrow> branch_obj"

datatype layout = At nat "layout list"


text \<open>The tree the accessors return when the memory is read along a layout.\<close>

fun load :: "branch_mem \<Rightarrow> layout \<Rightarrow> branch_t"
  and load_children :: "branch_mem \<Rightarrow> layout list \<Rightarrow> branch_t list" where
  "load mem (At a ls) =
     Branch (obj_id (mem a)) (obj_position (mem a)) (obj_mass (mem a)) (obj_bmin (mem a))
       (obj_bmax (mem a)) (obj_leaf (mem a)) (obj_entities (mem a)) (load_children mem ls)"
| "load_children mem [] = []"
| "load_children mem (l # ls) = load mem l # load_children mem ls"

text \<open>The three setters the source calls, each a write to the object at one address.\<close>

definition setPosition :: "nat \<Rightarrow> point_t \<Rightarrow> branch_mem \<Rightarrow> branch_mem" where
  "setPosition a v mem = mem(a := (mem a)\<lparr>obj_position := v\<rparr>)"








text \<open>
  Everything one process holds: the memory of the branch objects, the layout of the
  tree, the body store, the two buffers and the lines written to \<open>std::cout\<close>.
\<close>

record process =
  p_mem :: branch_mem
  p_layout :: layout
  p_bodies :: store
  p_recvCOM :: "mpi_cell_t list"
  p_nrecvCOM :: "nat list"
  p_cout :: "string list"

text \<open>What a phase reads of a process, and how what it returns is written back.\<close>

definition view :: "process \<Rightarrow> state" where
  "view p = \<lparr>tree = load (p_mem p) (p_layout p), bodies = p_bodies p, recvCOM = p_recvCOM p,
             nrecvCOM = p_nrecvCOM p, cout = p_cout p\<rparr>"




section \<open>Auxiliary notions for the statements\<close>

text \<open>What one pass through the body of the Hessian loop adds to its slot.\<close>

definition hessian_inc :: "real \<Rightarrow> real \<Rightarrow> point_t \<Rightarrow> nat \<Rightarrow> nat \<Rightarrow> nat \<Rightarrow> real" where
  "hessian_inc hc d r i j k =
     hc * firstterm r i j k + hc * (- 5) / (d * d) * coord r i * coord r j * coord r k"

text \<open>Readers of a result: the Hessian slot, the force and the accumulators alone.\<close>

definition zero_tensors :: tensors where
  "zero_tensors = (0, (\<lambda>_. 0), (\<lambda>_. 0))"

definition hessian_of :: "error + tensors \<Rightarrow> nat \<Rightarrow> real option" where
  "hessian_of r n = (case r of Inl e \<Rightarrow> None | Inr (f, J, H) \<Rightarrow> Some (H n))"


definition accumulated :: "error + tensors \<times> string list \<Rightarrow> error + tensors" where
  "accumulated r = (case r of Inl e \<Rightarrow> Inl e | Inr (t, out) \<Rightarrow> Inr t)"

text \<open>The output after the identity test at the head of \<open>tree_traversal_c2c\<close>.\<close>

definition same_id_line :: "branch_t \<Rightarrow> branch_t \<Rightarrow> string list \<Rightarrow> string list" where
  "same_id_line sink source out =
     (if branch_id sink = branch_id source then out @ [''Same Id''] else out)"

text \<open>The three early returns of \<open>tree_traversal_c2c\<close>: zero mass, same box, inside the sink.\<close>

definition c2c_filtered :: "branch_t \<Rightarrow> branch_t \<Rightarrow> bool" where
  "c2c_filtered sink source =
     (getMass source = 0 \<or>
      (getBMin sink = getBMin source \<and> getBMax sink = getBMax source) \<or>
      (point_lt (getBMin sink) (getBMin source) \<and> point_gt (getBMax sink) (getBMax source)))"





text \<open>
  The expansion as the specification words it: with \<open>\<delta> = p - cell.position\<close>, component
  \<open>i\<close> of \<open>a(p)\<close> is \<open>fc\<^sub>i + \<Sum>\<^sub>j dfcdr[i\<cdot>3+j] \<delta>\<^sub>j + \<Sum>\<^sub>j\<^sub>k dfcdrdr[i\<cdot>9+j\<cdot>3+k] \<delta>\<^sub>j \<delta>\<^sub>k \<cdot> \<onehalf>\<close>.
\<close>

definition taylor_spec :: "point_t \<Rightarrow> tensors \<Rightarrow> point_t \<Rightarrow> point_t" where
  "taylor_spec cell_position t p =
     (case t of (f, J, H) \<Rightarrow>
        let \<delta> = p - cell_position;
            a = (\<lambda>i. coord f i + (\<Sum>j\<leftarrow>[0..<3]. J (i * 3 + j) * coord \<delta> j) +
                  (\<Sum>j\<leftarrow>[0..<3]. \<Sum>k\<leftarrow>[0..<3].
                     H (i * 9 + j * 3 + k) * coord \<delta> j * coord \<delta> k * (1 / 2)))
        in Point (a 0) (a 1) (a 2))"

text \<open>
  The entities the descent visits, in order: the local entities of the leaves that are
  reached from the sink through branches of positive mass.
\<close>

fun c2p_visited :: "branch_t \<Rightarrow> body_holder list"
  and c2p_visited_children :: "branch_t list \<Rightarrow> body_holder list" where
  "c2p_visited (Branch i p m lo hi lf es cs) =
     (if m \<le> 0 then [] else if lf then filter is_local es else c2p_visited_children cs)"
| "c2p_visited_children [] = []"
| "c2p_visited_children (c # cs) = c2p_visited c @ c2p_visited_children cs"

text \<open>Adding a given increment to the body of each entity of a list, in order.\<close>

definition c2p_apply ::
  "(body_holder \<Rightarrow> point_t) \<Rightarrow> body_holder list \<Rightarrow> c2p_state \<Rightarrow> c2p_state" where
  "c2p_apply a hs s =
     (case s of (st, neighbors, nbody) \<Rightarrow>
        (fold (\<lambda>bi. add_acceleration (getBody bi) (a bi)) hs st,
         neighbors @ map getBody hs, nbody + int (length hs)))"

text \<open>One peer cell added into an owned cell: the three tensor fields, slot by slot.\<close>

definition add_tensors :: "mpi_cell_t \<Rightarrow> mpi_cell_t \<Rightarrow> mpi_cell_t" where
  "add_tensors c src =
     c\<lparr>fc := fc c + fc src,
       dfcdr := (\<lambda>k. if k < 9 then dfcdr c k + dfcdr src k else dfcdr c k),
       dfcdrdr := (\<lambda>k. if k < 27 then dfcdrdr c k + dfcdrdr src k else dfcdrdr c k)\<rparr>"

text \<open>The owned cell after the first \<open>n\<close> passes of the loop over \<open>k\<close>.\<close>

definition add_tensors_upto :: "nat \<Rightarrow> mpi_cell_t \<Rightarrow> mpi_cell_t \<Rightarrow> mpi_cell_t" where
  "add_tensors_upto n c src =
     c\<lparr>dfcdr := (\<lambda>k. if k < n \<and> k < 9 then dfcdr c k + dfcdr src k else dfcdr c k),
       dfcdrdr := (\<lambda>k. if k < n then dfcdrdr c k + dfcdrdr src k else dfcdrdr c k)\<rparr>"

text \<open>The three assertions met while chunk \<open>i\<close> is added into slot \<open>j\<close>.\<close>

definition checks_j :: "nat \<Rightarrow> nat \<Rightarrow> nat \<Rightarrow> mpi_cell_t list \<Rightarrow> bool" where
  "checks_j ncells i j rc =
     (position (rc ! j) = position (rc ! (i * ncells + j)) \<and>
      cell_id (rc ! j) = cell_id (rc ! (i * ncells + j)) \<and>
      list_all (\<lambda>k. dfcdrdr (rc ! j) k + dfcdrdr (rc ! (i * ncells + j)) k < 1000) [0..<27])"

text \<open>The received cells after chunk \<open>i\<close> has been added into the slots below \<open>m\<close>.\<close>

definition merge_chunk :: "nat \<Rightarrow> nat \<Rightarrow> nat \<Rightarrow> mpi_cell_t list \<Rightarrow> mpi_cell_t list" where
  "merge_chunk ncells i m rc =
     map (\<lambda>n. if n < m then add_tensors (rc ! n) (rc ! (i * ncells + n)) else rc ! n)
       [0..<length rc]"

text \<open>Slot \<open>j\<close> after the chunks \<open>1, \<dots>, i\<close> have been added into it.\<close>

fun partial_sum :: "mpi_cell_t list \<Rightarrow> nat \<Rightarrow> nat \<Rightarrow> nat \<Rightarrow> mpi_cell_t" where
  "partial_sum rc ncells j 0 = rc ! j"
| "partial_sum rc ncells j (Suc i) =
     add_tensors (partial_sum rc ncells j i) (rc ! (Suc i * ncells + j))"

text \<open>The received cells after the chunks \<open>1, \<dots>, i\<close> have been added into the owned slots.\<close>

definition reduced_upto :: "nat \<Rightarrow> nat \<Rightarrow> mpi_cell_t list \<Rightarrow> mpi_cell_t list" where
  "reduced_upto ncells i rc =
     map (\<lambda>n. if n < ncells then partial_sum rc ncells n i else rc ! n) [0..<length rc]"

text \<open>Cells for concrete reductions: one owned slot, one peer.\<close>

definition example_chunk0 :: mpi_cell_t where
  "example_chunk0 =
     \<lparr>position = Point 1 1 1, fc = Point 1 0 0, dfcdr = (\<lambda>_. 0),
      dfcdrdr = (\<lambda>k. if k = 2 then 600 else 0),
      bmax = Point 2 2 2, bmin = Point 0 0 0, cell_id = 5\<rparr>"

definition example_chunk1 :: mpi_cell_t where
  "example_chunk1 =
     \<lparr>position = Point 1 1 1, fc = Point 2 0 0, dfcdr = (\<lambda>_. 0),
      dfcdrdr = (\<lambda>k. if k = 2 then 300 else 0),
      bmax = Point 7 7 7, bmin = Point 5 5 5, cell_id = 5\<rparr>"

definition example_chunk2 :: mpi_cell_t where
  "example_chunk2 =
     \<lparr>position = Point 1 1 1, fc = Point 2 0 0, dfcdr = (\<lambda>_. 0),
      dfcdrdr = (\<lambda>k. if k = 2 then 600 else 0),
      bmax = Point 2 2 2, bmin = Point 0 0 0, cell_id = 5\<rparr>"


text \<open>
  The same store with every stored acceleration moved by a given amount, and a step
  result, or a process, with its store so moved. Writes that add carry such a move from
  the store before to the store after; a write that assigns would lose it.
\<close>

definition shift_acc :: "(nat \<Rightarrow> point_t) \<Rightarrow> store \<Rightarrow> store" where
  "shift_acc c st = (\<lambda>n. (st n)\<lparr>getAcceleration := getAcceleration (st n) + c n\<rparr>)"

definition shifted :: "(nat \<Rightarrow> point_t) \<Rightarrow> error + state \<Rightarrow> error + state" where
  "shifted c r =
     (case r of Inl e \<Rightarrow> Inl e | Inr s \<Rightarrow> Inr (s\<lparr>bodies := shift_acc c (bodies s)\<rparr>))"


text \<open>
  Single-process runs: a root leaf holding one body, and a process whose tree is a root
  leaf, living at address 4, that holds two bodies of unit mass two units apart; the two
  bodies start with the accelerations \<open>(3,0,0)\<close> and \<open>(0,7,0)\<close>.
\<close>

definition example_env :: mpi_env where
  "example_env = \<lparr>comm_rank = 0, comm_size = 1, peer_vcells = (\<lambda>_. []), peer_recvCOM = (\<lambda>_. [])\<rparr>"

definition example_holder :: body_holder where
  "example_holder = \<lparr>getPosition_h = Point 1 1 1, getMass_h = 2, is_local = True, getBody = 0\<rparr>"

definition example_single_state :: state where
  "example_single_state =
     \<lparr>tree = Branch 1 (Point 1 1 1) 2 (Point 0 0 0) (Point 2 2 2) True [example_holder] [],
      bodies = (\<lambda>_. \<lparr>getPosition_b = Point 1 1 1, getMass_b = 2, getAcceleration = Point 5 0 0\<rparr>),
      recvCOM = [], nrecvCOM = [], cout = []\<rparr>"



text \<open>
  A small local tree for concrete runs: the root (mass 3) has a local leaf of mass 1, a
  non-local leaf of mass 0 and an internal child of mass 2 that holds one local leaf.
\<close>

definition example_leaf_a :: branch_t where
  "example_leaf_a = Branch 8 (Point 1 1 1) 1 (Point 0 0 0) (Point 2 2 2) True [] []"

definition example_leaf_b :: branch_t where
  "example_leaf_b = Branch 80 (Point 3 3 3) 2 (Point 2 2 2) (Point 3 3 3) True [] []"

definition example_tree :: branch_t where
  "example_tree =
     Branch 1 (Point 2 2 2) 3 (Point 0 0 0) (Point 4 4 4) False []
       [example_leaf_a,
        Branch 9 (Point 0 0 0) 0 (Point 0 0 2) (Point 2 2 4) True [] [],
        Branch 10 (Point 3 3 3) 2 (Point 2 2 2) (Point 4 4 4) False [] [example_leaf_b]]"

section \<open>Basic facts\<close>

lemma upt_3: "[0..<3] = [0, 1, 2]"
  by (simp add: upt_rec)

lemma lt3: "i < (3::nat) \<Longrightarrow> i = 0 \<or> i = 1 \<or> i = 2"
  by arith

lemma fits_int_iff: "fits_int n \<longleftrightarrow> n < 2147483648"
proof -
  have "(int n + 2147483648) mod 4294967296 = int n + 2147483648 \<longleftrightarrow> n < 2147483648"
    by (simp add: zmod_trivial_iff)
  moreover have "fits_int n \<longleftrightarrow>
      (int n + 2147483648) mod 4294967296 = int n + 2147483648"
    unfolding fits_int_def int32_def by linarith
  ultimately show ?thesis by simp
qed

lemma int32_wraps: "int32 (6000000 * sizeof_mpi_cell_t) = - 1942967296"
  by (simp add: int32_def sizeof_mpi_cell_t_def)

text \<open>
  A loop whose body adds to what is read at one place adds the sum of the increments there.
  The lemma is applied once per loop of a nest, so that no nest is ever unfolded as a term.
\<close>

lemma fold_view_add:
  fixes view :: "'s \<Rightarrow> real"
  assumes "\<And>x s. x \<in> set xs \<Longrightarrow> view (G x s) = view s + S x"
  shows "view (fold G xs s) = view s + (\<Sum>x\<leftarrow>xs. S x)"
  using assms by (induction xs arbitrary: s) (simp_all add: add.assoc)

lemma fold_pointwise_add:
  fixes G :: "'a \<Rightarrow> tensor \<Rightarrow> tensor"
  assumes "\<And>x H n. G x H n = H n + S x n"
  shows "fold G xs H n = H n + (\<Sum>x\<leftarrow>xs. S x n)"
  by (induction xs arbitrary: H) (simp_all add: assms add.assoc)

section \<open>The point contribution\<close>

lemma distance_2_0: "distance (Point 2 0 0) (Point 0 0 0) = 2"
  by (simp add: distance_def)

lemma hessian_step_apply:
  "hessian_step hc d r i j k H n =
     H n + (if n = i * 9 + j * 3 + k then hessian_inc hc d r i j k else 0)"
  by (simp add: hessian_step_def hessian_inc_def Let_def)

lemma hessian_loops:
  "fold (\<lambda>i. fold (\<lambda>j. fold (\<lambda>k. hessian_step hc d r i j k) [0..<3]) [0..<3]) [0..<3] H n
   = H n + (\<Sum>i\<leftarrow>[0..<3]. \<Sum>j\<leftarrow>[0..<3]. \<Sum>k\<leftarrow>[0..<3].
        if n = i * 9 + j * 3 + k then hessian_inc hc d r i j k else 0)"
  by (rule fold_pointwise_add, rule fold_pointwise_add, rule fold_pointwise_add,
      rule hessian_step_apply)

lemma slot_sum:
  assumes "i < 3" "j < 3" "k < 3"
  shows "(\<Sum>a\<leftarrow>[0..<3]. \<Sum>b\<leftarrow>[0..<3]. \<Sum>c\<leftarrow>[0..<3].
        if i * 9 + j * 3 + k = a * 9 + b * 3 + c then (f a b c :: real) else 0) = f i j k"
  using lt3[OF assms(1)] lt3[OF assms(2)] lt3[OF assms(3)]
  by (elim disjE) (simp_all add: upt_3)

lemma computeAcceleration_Inr:
  assumes "0 < distance p q"
  shows "computeAcceleration p q m (f, J, H) = Inr
     (f + point_scale (- m / (distance p q * distance p q * distance p q)) (p - q),
      fold (\<lambda>i. fold (\<lambda>j. jacobi_step (- m / (distance p q * distance p q * distance p q))
         (distance p q) (p - q) i j) [0..<3]) [0..<3] J,
      fold (\<lambda>i. fold (\<lambda>j. fold (\<lambda>k. hessian_step
         (- 3 * m / (distance p q * distance p q * distance p q * distance p q * distance p q))
         (distance p q) (p - q) i j k) [0..<3]) [0..<3]) [0..<3] H)"
  using assms by (simp add: computeAcceleration_def Let_def)






text \<open>
  What the code adds to each slot of the Hessian: the first term is tripled unless
  \<open>(i==j)==k\<close> holds, that is, unless \<open>k\<close> is 1 when \<open>i = j\<close> and 0 when \<open>i \<noteq> j\<close>.
\<close>

lemma computeAcceleration_hessian:
  assumes "computeAcceleration p q m (f, J, H) = Inr (f', J', H')" "i < 3" "j < 3" "k < 3"
  shows "H' (i * 9 + j * 3 + k) = H (i * 9 + j * 3 + k) +
     hessian_inc (- 3 * m / (distance p q * distance p q * distance p q * distance p q * distance p q))
       (distance p q) (p - q) i j k"
proof -
  have "0 < distance p q"
    using assms(1) by (auto simp: computeAcceleration_def Let_def split: if_splits)
  from computeAcceleration_Inr[OF this, of m f J H] assms(1)
  have "H' = fold (\<lambda>i. fold (\<lambda>j. fold (\<lambda>k. hessian_step
         (- 3 * m / (distance p q * distance p q * distance p q * distance p q * distance p q))
         (distance p q) (p - q) i j k) [0..<3]) [0..<3]) [0..<3] H"
    by simp
  then show ?thesis
    by (simp only: hessian_loops slot_sum[OF assms(2-4)])
qed



text \<open>
  C1. The claim: for a sink and a source at distance \<open>d > 0\<close> the point contribution adds
  \<open>\<beta> \<cdot> [T - (5/d\<^sup>2) r\<^sub>i r\<^sub>j r\<^sub>k]\<close> to slot \<open>i\<cdot>9 + j\<cdot>3 + k\<close>, with \<open>T\<close> tripled exactly when
  the indices are not all equal. The code decides the tripling by \<open>!(i==j==k)\<close>. For
  the sink at \<open>(2,0,0)\<close>, a unit source at the origin and \<open>i = j = k = 0\<close> the indices
  are all equal, yet the code triples \<open>T\<close>: slot 0 receives \<open>-3/4\<close>, where the claimed
  increment is \<open>3/8\<close>.
\<close>

theorem computeAcceleration_hessian_slot0:
  "hessian_of (computeAcceleration (Point 2 0 0) (Point 0 0 0) 1 zero_tensors) 0 = Some (- 3 / 4) \<and>
   hessian_increment_spec (Point 2 0 0) (Point 0 0 0) 1 0 0 0 = 3 / 8"
proof -
  obtain f' J' H' where
    r: "computeAcceleration (Point 2 0 0) (Point 0 0 0) 1 (0, (\<lambda>_. 0), (\<lambda>_. 0)) = Inr (f', J', H')"
    using computeAcceleration_Inr[of "Point 2 0 0" "Point 0 0 0"] by (simp add: distance_2_0)
  have "H' 0 = - 3 / 4"
    using computeAcceleration_hessian[OF r, of 0 0 0]
    by (simp add: distance_2_0 hessian_inc_def firstterm_def chained_eq_def Let_def)
  moreover have "hessian_increment_spec (Point 2 0 0) (Point 0 0 0) 1 0 0 0 = 3 / 8"
    by (simp add: hessian_increment_spec_def distance_2_0 kron_def Let_def)
  ultimately show ?thesis using r by (simp add: hessian_of_def zero_tensors_def)
qed

section \<open>Frontier selection\<close>

lemma traverse_frontier:
  "traverse maxMass b vcells = vcells @ map (\<lambda>(path, b). cell_of b) (frontier maxMass b)"
  "traverse_children maxMass cs vcells =
     vcells @ map (\<lambda>(path, b). cell_of b) (frontier_children maxMass n cs)"
proof (induction maxMass b vcells and maxMass cs vcells arbitrary: and n
       rule: traverse_traverse_children.induct)
  case (1 maxMass i p m lo hi lf es cs vcells)
  then show ?case by (simp add: cell_of_def)
next
  case (2 maxMass vcells)
  then show ?case by simp
next
  case (3 maxMass c cs vcells)
  have "traverse_children maxMass (c # cs) vcells =
        traverse_children maxMass cs (traverse maxMass c vcells)"
    by simp
  also have "\<dots> = traverse maxMass c vcells @
        map (\<lambda>(path, b). cell_of b) (frontier_children maxMass (Suc n) cs)"
    by (rule "3.IH"(2))
  finally show ?case
    by (simp add: "3.IH"(1) case_prod_unfold comp_def)
qed

lemma frontier_mass:
  "mass_consistent b \<Longrightarrow> (\<Sum>(path, e)\<leftarrow>frontier maxMass b. getMass e) = getMass b"
  "mass_consistent_children cs \<Longrightarrow>
     (\<Sum>(path, e)\<leftarrow>frontier_children maxMass n cs. getMass e) = sum_list (map getMass cs)"
proof (induction maxMass b and maxMass n cs rule: frontier_frontier_children.induct)
  case (1 maxMass i p m lo hi lf es cs)
  then show ?case by (auto split: if_splits)
next
  case (2 maxMass n)
  then show ?case by simp
next
  case (3 maxMass n c cs)
  then show ?case by (simp add: case_prod_unfold comp_def)
qed

lemma frontier_children_head:
  "(p, e) \<in> set (frontier_children maxMass n cs) \<Longrightarrow> \<exists>k p'. p = k # p' \<and> n \<le> k"
proof (induction cs arbitrary: n)
  case Nil
  then show ?case by simp
next
  case (Cons c cs)
  then show ?case by fastforce
qed

lemma frontier_branch_at:
  "(p, e) \<in> set (frontier maxMass b) \<Longrightarrow> branch_at b p = Some e"
  "(p, e) \<in> set (frontier_children maxMass n cs) \<Longrightarrow>
     \<exists>k p'. p = (n + k) # p' \<and> k < length cs \<and> branch_at (cs ! k) p' = Some e"
proof (induction maxMass b and maxMass n cs arbitrary: p e and p e
       rule: frontier_frontier_children.induct)
  case (1 maxMass i q m lo hi lf es cs)
  show ?case
  proof (cases "m = 0 \<or> lf \<or> m < maxMass")
    case True
    then show ?thesis using "1.prems" by (auto split: if_splits)
  next
    case False
    with "1.prems" have "(p, e) \<in> set (frontier_children maxMass 0 cs)" by simp
    from "1.IH"[OF _ _ this] False obtain k p' where
      "p = k # p'" "k < length cs" "branch_at (cs ! k) p' = Some e" by auto
    then show ?thesis by simp
  qed
next
  case (2 maxMass n)
  then show ?case by simp
next
  case (3 maxMass n c cs)
  from "3.prems" consider
    (a) p' where "p = n # p'" "(p', e) \<in> set (frontier maxMass c)"
    | (b) "(p, e) \<in> set (frontier_children maxMass (Suc n) cs)"
    by auto
  then show ?case
  proof cases
    case a
    from "3.IH"(1)[OF a(2)] a(1) show ?thesis by (intro exI[of _ 0]) simp
  next
    case b
    from "3.IH"(2)[OF b] obtain k p' where
      "p = (Suc n + k) # p'" "k < length cs" "branch_at (cs ! k) p' = Some e" by auto
    then show ?thesis by (intro exI[of _ "Suc k"]) simp
  qed
qed

lemma frontier_prefix_free:
  "(p, e) \<in> set (frontier maxMass b) \<Longrightarrow> (q, e') \<in> set (frontier maxMass b) \<Longrightarrow>
     \<not> strict_prefix p q"
  "(p, e) \<in> set (frontier_children maxMass n cs) \<Longrightarrow>
   (q, e') \<in> set (frontier_children maxMass n cs) \<Longrightarrow> \<not> strict_prefix p q"
proof (induction maxMass b and maxMass n cs arbitrary: p e q e' and p e q e'
       rule: frontier_frontier_children.induct)
  case (1 maxMass i pos m lo hi lf es cs)
  show ?case
  proof (cases "m = 0 \<or> lf \<or> m < maxMass")
    case True
    then show ?thesis using "1.prems" by (auto split: if_splits)
  next
    case False
    with "1.prems" have "(p, e) \<in> set (frontier_children maxMass 0 cs)"
      "(q, e') \<in> set (frontier_children maxMass 0 cs)" by simp_all
    from "1.IH"[OF _ _ this] False show ?thesis by auto
  qed
next
  case (2 maxMass n)
  then show ?case by simp
next
  case (3 maxMass n c cs)
  from "3.prems"(1) consider
    (a) p' where "p = n # p'" "(p', e) \<in> set (frontier maxMass c)"
    | (b) "(p, e) \<in> set (frontier_children maxMass (Suc n) cs)"
    by auto
  then show ?case
  proof cases
    case a
    from "3.prems"(2) consider
      (c) q' where "q = n # q'" "(q', e') \<in> set (frontier maxMass c)"
      | (d) "(q, e') \<in> set (frontier_children maxMass (Suc n) cs)"
      by auto
    then show ?thesis
    proof cases
      case c
      from "3.IH"(1)[OF a(2) c(2)] a(1) c(1) show ?thesis by simp
    next
      case d
      from frontier_children_head[OF d] a(1) show ?thesis by auto
    qed
  next
    case b
    from "3.prems"(2) consider
      (c) q' where "q = n # q'" "(q', e') \<in> set (frontier maxMass c)"
      | (d) "(q, e') \<in> set (frontier_children maxMass (Suc n) cs)"
      by auto
    then show ?thesis
    proof cases
      case c
      from frontier_children_head[OF b] c(1) show ?thesis by auto
    next
      case d
      from "3.IH"(2)[OF b d] show ?thesis .
    qed
  qed
qed

lemma example_frontier:
  "frontier 2 example_tree = [([0], example_leaf_a), ([2, 0], example_leaf_b)]"
  by (simp add: example_tree_def example_leaf_a_def example_leaf_b_def)

lemma example_mass_consistent: "mass_consistent example_tree"
  by (simp add: example_tree_def example_leaf_a_def example_leaf_b_def)

text \<open>
  C4. In a tree where every internal branch weighs what its children weigh together
  (non-local branches weigh 0), the cells pushed by the selection traversal are made from
  the branches of \<open>frontier\<close>, and the masses of these branches add up to the mass of
  the root. This holds for every threshold, in particular for every \<open>maxMass > 0\<close>.
\<close>

theorem frontier_mass_coverage:
  assumes "mass_consistent tree_root"
  shows "traverse maxMass tree_root [] =
           map (\<lambda>(path, b). cell_of b) (frontier maxMass tree_root) \<and>
         (\<Sum>(path, b)\<leftarrow>frontier maxMass tree_root. getMass b) = getMass tree_root"
  using traverse_frontier(1)[of maxMass tree_root "[]"] frontier_mass(1)[OF assms, of maxMass]
  by simp

theorem frontier_mass_coverage_witness:
  "mass_consistent example_tree \<and> (0::real) < 2 \<and>
   traverse 2 example_tree [] = [cell_of example_leaf_a, cell_of example_leaf_b] \<and>
   getMass example_leaf_a + getMass example_leaf_b = getMass example_tree"
  using frontier_mass_coverage[OF example_mass_consistent, of 2] example_mass_consistent
  by (simp add: example_frontier)

text \<open>
  C7. Every branch the selection traversal emits sits at the path recorded for it, and no
  emitted branch lies strictly below another one: the path of one is never a proper
  prefix of the path of another. This holds for every threshold.
\<close>

theorem frontier_disjoint:
  assumes "(p, b) \<in> set (frontier maxMass tree_root)"
    and "(q, c) \<in> set (frontier maxMass tree_root)"
  shows "traverse maxMass tree_root [] =
           map (\<lambda>(path, b). cell_of b) (frontier maxMass tree_root) \<and>
         branch_at tree_root p = Some b \<and> branch_at tree_root q = Some c \<and>
         \<not> strict_prefix p q"
  using traverse_frontier(1)[of maxMass tree_root "[]"]
    frontier_branch_at(1)[OF assms(1)] frontier_branch_at(1)[OF assms(2)]
    frontier_prefix_free(1)[OF assms]
  by simp

theorem frontier_disjoint_witness:
  "([0], example_leaf_a) \<in> set (frontier 2 example_tree) \<and>
   ([2, 0], example_leaf_b) \<in> set (frontier 2 example_tree) \<and>
   branch_at example_tree [0] = Some example_leaf_a \<and>
   branch_at example_tree [2, 0] = Some example_leaf_b \<and>
   \<not> strict_prefix [0] [2, 0::nat]"
proof -
  have a: "([0], example_leaf_a) \<in> set (frontier 2 example_tree)"
    and b: "([2, 0], example_leaf_b) \<in> set (frontier 2 example_tree)"
    by (simp_all add: example_frontier)
  from frontier_disjoint[OF a b] a b show ?thesis by simp
qed

section \<open>Cell-to-cell traversal: facts\<close>

lemma c2c_unfold:
  "tree_traversal_c2c sink source (t, out) \<theta> =
     (if c2c_filtered sink source then Inr (t, same_id_line sink source out)
      else if MAC sink source \<theta>
      then (case computeAcceleration (getPosition sink) (getPosition source) (getMass source) t of
              Inl e \<Rightarrow> Inl e | Inr t' \<Rightarrow> Inr (t', same_id_line sink source out))
      else if is_leaf source
      then (case for_loop (entities source) (c2c_body sink) t of
              Inl e \<Rightarrow> Inl e | Inr t' \<Rightarrow> Inr (t', same_id_line sink source out))
      else c2c_children sink (children source) (t, same_id_line sink source out) \<theta>)"
proof (cases source)
  case (Branch i p m lo hi lf es cs)
  define SB where "SB \<longleftrightarrow> getBMin sink = lo \<and> getBMax sink = hi"
  define IN where "IN \<longleftrightarrow> point_lt (getBMin sink) lo \<and> point_gt (getBMax sink) hi"
  show ?thesis
    unfolding Branch tree_traversal_c2c.simps Let_def c2c_filtered_def same_id_line_def
      branch_t.sel
    apply (fold SB_def IN_def)
    by (cases "m = 0"; cases SB; cases IN; simp)
qed


declare tree_traversal_c2c.simps(1) [simp del]

lemma accumulated_simps [simp]:
  "accumulated (Inl e) = Inl e" "accumulated (Inr a) = Inr (fst a)"
  by (simp_all add: accumulated_def case_prod_unfold)


























section \<open>Cell-to-particle descent: facts\<close>

lemma coord_set_coord:
  "i < 3 \<Longrightarrow> n < 3 \<Longrightarrow> coord (set_coord g i v) n = (if n = i then v else coord g n)"
  by (cases g) auto

lemma point_eq_coord: "p = Point (coord p 0) (coord p 1) (coord p 2)"
  by (cases p) simp

lemma jacobi_part:
  assumes "n < 3"
  shows "coord (fold (\<lambda>i. fold (\<lambda>j g.
            set_coord g i (coord g i + J (i * 3 + j) * coord d j)) [0..<3]) [0..<3] g) n =
         coord g n + (\<Sum>i\<leftarrow>[0..<3]. \<Sum>j\<leftarrow>[0..<3]. if n = i then J (i * 3 + j) * coord d j else 0)"
proof (rule fold_view_add)
  fix i s
  assume "i \<in> set [0..<3]"
  then have i: "i < 3" by simp
  show "coord (fold (\<lambda>j g. set_coord g i (coord g i + J (i * 3 + j) * coord d j)) [0..<3] s) n =
        coord s n + (\<Sum>j\<leftarrow>[0..<3]. if n = i then J (i * 3 + j) * coord d j else 0)"
    by (rule fold_view_add) (simp add: coord_set_coord[OF i assms])
qed

lemma tmpMatrix_part:
  "fold (\<lambda>i. fold (\<lambda>j. fold (\<lambda>k (M::tensor).
       M(i * 3 + j := M (i * 3 + j) + coord d k * H (i * 9 + j + k * 3))) [0..<3]) [0..<3]) [0..<3] M q =
   M q + (\<Sum>i\<leftarrow>[0..<3]. \<Sum>j\<leftarrow>[0..<3]. \<Sum>k\<leftarrow>[0..<3].
            if q = i * 3 + j then coord d k * H (i * 9 + j + k * 3) else 0)"
  by (rule fold_pointwise_add, rule fold_pointwise_add, rule fold_pointwise_add) simp

lemma tmpVector_part:
  "fold (\<lambda>i. fold (\<lambda>j (V::tensor). V(i := V i + T (i * 3 + j) * coord d j)) [0..<3]) [0..<3] V n =
   V n + (\<Sum>i\<leftarrow>[0..<3]. \<Sum>j\<leftarrow>[0..<3]. if n = i then T (i * 3 + j) * coord d j else 0)"
  by (rule fold_pointwise_add, rule fold_pointwise_add) simp

lemma half_part:
  assumes "n < 3"
  shows "coord (fold (\<lambda>i g. set_coord g i (coord g i + 1 / 2 * V i)) [0..<3] g) n =
         coord g n + (\<Sum>i\<leftarrow>[0..<3]. if n = i then 1 / 2 * V i else 0)"
proof (rule fold_view_add)
  fix i s
  assume "i \<in> set [0..<3]"
  then have i: "i < 3" by simp
  show "coord (set_coord s i (coord s i + 1 / 2 * V i)) n =
        coord s n + (if n = i then 1 / 2 * V i else 0)"
    by (simp add: coord_set_coord[OF i assms])
qed

lemma c2p_grav_coord:
  assumes "n < 3"
  shows "coord (c2p_grav sp (f, J, H) pos) n = coord (taylor_spec sp (f, J, H) pos) n"
proof -
  define T where "T = fold (\<lambda>i. fold (\<lambda>j. fold (\<lambda>k (M::tensor).
       M(i * 3 + j := M (i * 3 + j) + coord (pos - sp) k * H (i * 9 + j + k * 3)))
       [0..<3]) [0..<3]) [0..<3] (\<lambda>_. 0)"
  define V where "V = fold (\<lambda>i. fold (\<lambda>j (V::tensor).
       V(i := V i + T (i * 3 + j) * coord (pos - sp) j)) [0..<3]) [0..<3] (\<lambda>_. 0)"
  have T: "T q = (\<Sum>i\<leftarrow>[0..<3]. \<Sum>j\<leftarrow>[0..<3]. \<Sum>k\<leftarrow>[0..<3].
            if q = i * 3 + j then coord (pos - sp) k * H (i * 9 + j + k * 3) else 0)" for q
    unfolding T_def tmpMatrix_part by simp
  have V: "V m = (\<Sum>i\<leftarrow>[0..<3]. \<Sum>j\<leftarrow>[0..<3].
            if m = i then T (i * 3 + j) * coord (pos - sp) j else 0)" for m
    unfolding V_def tmpVector_part by simp
  have "coord (c2p_grav sp (f, J, H) pos) n =
        coord f n + (\<Sum>i\<leftarrow>[0..<3]. \<Sum>j\<leftarrow>[0..<3].
           if n = i then J (i * 3 + j) * coord (pos - sp) j else 0) +
        (\<Sum>i\<leftarrow>[0..<3]. if n = i then 1 / 2 * V i else 0)"
    unfolding c2p_grav_def Let_def prod.case T_def[symmetric] V_def[symmetric]
    by (simp only: half_part[OF assms] jacobi_part[OF assms])
  also have "\<dots> = coord (taylor_spec sp (f, J, H) pos) n"
    using lt3[OF assms]
    by (elim disjE) (simp_all add: taylor_spec_def Let_def upt_3 V T algebra_simps)
  finally show ?thesis .
qed

lemma c2p_grav_taylor: "c2p_grav sp t pos = taylor_spec sp t pos"
proof -
  obtain f J H where t: "t = (f, J, H)" by (cases t)
  show ?thesis
    unfolding t
    by (subst point_eq_coord[of "c2p_grav sp (f, J, H) pos"],
        subst point_eq_coord[of "taylor_spec sp (f, J, H) pos"])
       (simp add: c2p_grav_coord)
qed


lemma c2p_apply_Nil: "c2p_apply a [] s = s"
  by (cases s) (simp add: c2p_apply_def)

lemma c2p_apply_append: "c2p_apply a (xs @ ys) s = c2p_apply a ys (c2p_apply a xs s)"
  by (cases s) (simp add: c2p_apply_def)

lemma c2p_body_apply:
  "c2p_body sp t e s =
     c2p_apply (\<lambda>bi. taylor_spec sp t (getPosition_h bi)) (filter is_local [e]) s"
  by (cases s) (simp add: c2p_body_def c2p_apply_def c2p_grav_taylor)

lemma c2p_body_fold:
  "fold (c2p_body sp t) es s =
     c2p_apply (\<lambda>bi. taylor_spec sp t (getPosition_h bi)) (filter is_local es) s"
proof (induction es arbitrary: s)
  case Nil
  then show ?case by (simp add: c2p_apply_Nil)
next
  case (Cons e es)
  let ?a = "\<lambda>bi. taylor_spec sp t (getPosition_h bi)"
  have "fold (c2p_body sp t) (e # es) s = fold (c2p_body sp t) es (c2p_body sp t e s)"
    by simp
  also have "\<dots> = c2p_apply ?a (filter is_local es) (c2p_apply ?a (filter is_local [e]) s)"
    by (simp only: Cons.IH c2p_body_apply)
  also have "\<dots> = c2p_apply ?a (filter is_local ([e] @ es)) s"
    by (simp only: c2p_apply_append filter_append)
  finally show ?case by simp
qed

lemma sink_traversal_c2p_visited:
  "sink_traversal_c2p b sp t s =
     c2p_apply (\<lambda>bi. taylor_spec sp t (getPosition_h bi)) (c2p_visited b) s"
  "c2p_children cs sp t s =
     c2p_apply (\<lambda>bi. taylor_spec sp t (getPosition_h bi)) (c2p_visited_children cs) s"
proof (induction b sp t s and cs sp t s rule: sink_traversal_c2p_c2p_children.induct)
  case (1 i p m lo hi lf es cs sinkPosition t s)
  then show ?case by (simp add: c2p_body_fold c2p_apply_Nil)
next
  case (2 sinkPosition t s)
  then show ?case by (simp add: c2p_apply_Nil)
next
  case (3 c cs sinkPosition t s)
  then show ?case by (simp add: c2p_apply_append)
qed

text \<open>
  C5. The descent from a sink visits the local entities of the leaves it reaches through
  branches of positive mass; for each, in order, it adds to the acceleration of the
  entity's body exactly \<open>a(p)\<close>, the expansion of the specification at the entity's
  position \<open>p\<close> around \<open>sinkPosition\<close>, and it writes nothing else to the store.
\<close>

theorem sink_traversal_c2p_taylor:
  "sink_traversal_c2p b sinkPosition t (st, neighbors, nbody) =
     (fold (\<lambda>bi. add_acceleration (getBody bi) (taylor_spec sinkPosition t (getPosition_h bi)))
        (c2p_visited b) st,
      neighbors @ map getBody (c2p_visited b),
      nbody + int (length (c2p_visited b))) \<and>
   getAcceleration (add_acceleration q \<Delta> st q) = getAcceleration (st q) + \<Delta>"
  by (simp add: sink_traversal_c2p_visited(1) c2p_apply_def add_acceleration_def)


section \<open>The reduction of the gather\<close>

lemma for_loop_append:
  "for_loop (xs @ ys) f s =
     (case for_loop xs f s of Inl e \<Rightarrow> Inl e | Inr s' \<Rightarrow> for_loop ys f s')"
  by (induction xs arbitrary: s) (auto split: sum.splits)

lemma for_loop_snoc_Inr:
  "for_loop (xs @ [x]) f s = Inr s' \<longleftrightarrow> (\<exists>s1. for_loop xs f s = Inr s1 \<and> f x s1 = Inr s')"
  by (auto simp: for_loop_append split: sum.splits)

lemma for_loop_upt_Inr_iff:
  assumes "\<And>n s'. a \<le> n \<Longrightarrow> n < b \<Longrightarrow> f n (S n) = Inr s' \<longleftrightarrow> C n \<and> s' = S (Suc n)"
    and "a \<le> b"
  shows "for_loop [a..<b] f (S a) = Inr s' \<longleftrightarrow> (\<forall>n. a \<le> n \<and> n < b \<longrightarrow> C n) \<and> s' = S b"
  using assms
proof (induction b arbitrary: s')
  case 0
  then show ?case by auto
next
  case (Suc b)
  show ?case
  proof (cases "a \<le> b")
    case True
    have IH: "for_loop [a..<b] f (S a) = Inr s1 \<longleftrightarrow> (\<forall>n. a \<le> n \<and> n < b \<longrightarrow> C n) \<and> s1 = S b" for s1
      using Suc.prems(1) True by (intro Suc.IH) simp_all
    have step: "f b (S b) = Inr s' \<longleftrightarrow> C b \<and> s' = S (Suc b)"
      using Suc.prems(1)[of b s'] True by simp
    have "for_loop [a..<Suc b] f (S a) = Inr s' \<longleftrightarrow>
          (\<exists>s1. for_loop [a..<b] f (S a) = Inr s1 \<and> f b s1 = Inr s')"
      using True by (simp add: for_loop_snoc_Inr)
    also have "\<dots> \<longleftrightarrow> (\<forall>n. a \<le> n \<and> n < b \<longrightarrow> C n) \<and> f b (S b) = Inr s'"
      by (auto simp: IH)
    also have "\<dots> \<longleftrightarrow> (\<forall>n. a \<le> n \<and> n < Suc b \<longrightarrow> C n) \<and> s' = S (Suc b)"
      unfolding step using True by (auto simp: less_Suc_eq)
    finally show ?thesis .
  next
    case False
    with Suc.prems(2) have "a = Suc b" by simp
    then show ?thesis by auto
  qed
qed

lemma add_tensors_upto_0: "add_tensors_upto 0 c src = c"
  by (simp add: add_tensors_upto_def)

lemma add_tensors_upto_27:
  "add_tensors_upto 27 (c\<lparr>fc := fc c + fc src\<rparr>) src = add_tensors c src"
  by (auto simp: add_tensors_upto_def add_tensors_def fun_eq_iff)

lemma add_tensors_upto_Suc:
  "(if n < 9 then (add_tensors_upto n c src)\<lparr>dfcdr := (dfcdr (add_tensors_upto n c src))
        (n := dfcdr (add_tensors_upto n c src) n + dfcdr src n)\<rparr>
    else add_tensors_upto n c src)
   \<lparr>dfcdrdr := (dfcdrdr (add_tensors_upto n c src))
        (n := dfcdrdr (add_tensors_upto n c src) n + dfcdrdr src n)\<rparr> =
   add_tensors_upto (Suc n) c src"
  by (auto simp: add_tensors_upto_def fun_eq_iff less_Suc_eq)

lemma reduce_k_step:
  assumes "j < length rc" "i * ncells + j \<noteq> j"
  shows "reduce_k ncells i j n (rc[j := add_tensors_upto n c (rc ! (i * ncells + j))]) = Inr s' \<longleftrightarrow>
         dfcdrdr c n + dfcdrdr (rc ! (i * ncells + j)) n < 1000 \<and>
         s' = rc[j := add_tensors_upto (Suc n) c (rc ! (i * ncells + j))]"
proof -
  let ?src = "rc ! (i * ncells + j)"
  let ?c = "add_tensors_upto n c ?src"
  have 1: "(rc[j := ?c]) ! j = ?c" using assms(1) by simp
  have 2: "(rc[j := ?c]) ! (i * ncells + j) = ?src" using assms(2) by simp
  have 3: "dfcdrdr ?c n = dfcdrdr c n" by (simp add: add_tensors_upto_def)
  have 4: "dfcdrdr (add_tensors_upto (Suc n) c ?src) n = dfcdrdr c n + dfcdrdr ?src n"
    by (simp add: add_tensors_upto_def)
  show ?thesis
    unfolding reduce_k_def Let_def 1 2
    using add_tensors_upto_Suc[of n c ?src]
    by (cases "n < 9") (auto simp: 3 4)
qed


lemma reduce_k_loop:
  assumes "j < length rc" "i * ncells + j \<noteq> j"
  shows "for_loop [0..<27] (reduce_k ncells i j) rc = Inr s' \<longleftrightarrow>
         (\<forall>k<27. dfcdrdr (rc ! j) k + dfcdrdr (rc ! (i * ncells + j)) k < 1000) \<and>
         s' = rc[j := add_tensors_upto 27 (rc ! j) (rc ! (i * ncells + j))]"
proof -
  let ?S = "\<lambda>n. rc[j := add_tensors_upto n (rc ! j) (rc ! (i * ncells + j))]"
  have "for_loop [0..<27] (reduce_k ncells i j) (?S 0) = Inr s' \<longleftrightarrow>
        (\<forall>n. 0 \<le> n \<and> n < 27 \<longrightarrow>
           dfcdrdr (rc ! j) n + dfcdrdr (rc ! (i * ncells + j)) n < 1000) \<and> s' = ?S 27"
    by (rule for_loop_upt_Inr_iff) (simp_all only: reduce_k_step[OF assms] le0)
  then show ?thesis by (simp add: add_tensors_upto_0)
qed

lemma reduce_j_Inr_iff:
  assumes "j < length rc" "i * ncells + j \<noteq> j" "i * ncells + j < length rc"
  shows "reduce_j ncells i j rc = Inr s' \<longleftrightarrow>
         checks_j ncells i j rc \<and> s' = rc[j := add_tensors (rc ! j) (rc ! (i * ncells + j))]"
proof -
  let ?c = "rc ! j" and ?src = "rc ! (i * ncells + j)"
  let ?rc1 = "rc[j := ?c\<lparr>fc := fc ?c + fc ?src\<rparr>]"
  have 1: "?rc1 ! j = ?c\<lparr>fc := fc ?c + fc ?src\<rparr>" using assms(1) by simp
  have 2: "?rc1 ! (i * ncells + j) = ?src" using assms(2) by simp
  have 3: "j < length ?rc1" using assms(1) by simp
  have "for_loop [0..<27] (reduce_k ncells i j) ?rc1 = Inr s' \<longleftrightarrow>
        (\<forall>k<27. dfcdrdr ?c k + dfcdrdr ?src k < 1000) \<and>
        s' = rc[j := add_tensors ?c ?src]"
    unfolding reduce_k_loop[OF 3 assms(2)] 1 2
    by (simp add: add_tensors_upto_27)
  then show ?thesis
    unfolding reduce_j_def checks_j_def by (auto simp: list_all_iff)
qed


lemma chunk_index_bound:
  fixes i j sz ncells :: nat
  assumes "i < sz" "j < ncells"
  shows "i * ncells + j < ncells * sz"
proof -
  have "i * ncells + j < Suc i * ncells" using assms(2) by simp
  also have "\<dots> \<le> sz * ncells" using assms(1) by (intro mult_le_mono1) simp
  finally show ?thesis by (simp add: mult.commute)
qed

lemma merge_chunk_0: "merge_chunk ncells i 0 rc = rc"
  by (simp add: merge_chunk_def map_nth)

lemma length_merge_chunk: "length (merge_chunk ncells i m rc) = length rc"
  by (simp add: merge_chunk_def)

lemma nth_merge_chunk:
  "n < length rc \<Longrightarrow> merge_chunk ncells i m rc ! n =
     (if n < m then add_tensors (rc ! n) (rc ! (i * ncells + n)) else rc ! n)"
  by (simp add: merge_chunk_def)

lemma merge_chunk_Suc:
  assumes "n < length rc"
  shows "(merge_chunk ncells i n rc)[n := add_tensors (rc ! n) (rc ! (i * ncells + n))] =
         merge_chunk ncells i (Suc n) rc"
  by (rule nth_equalityI)
     (auto simp: length_merge_chunk nth_merge_chunk nth_list_update less_Suc_eq)

lemma reduce_j_loop:
  assumes len: "length rc = ncells * sz" and i: "1 \<le> i" "i < sz" and m: "m \<le> ncells"
  shows "for_loop [0..<m] (reduce_j ncells i) rc = Inr s' \<longleftrightarrow>
         (\<forall>j<m. checks_j ncells i j rc) \<and> s' = merge_chunk ncells i m rc"
proof -
  let ?S = "\<lambda>n. merge_chunk ncells i n rc"
  have step: "reduce_j ncells i n (?S n) = Inr s1 \<longleftrightarrow> checks_j ncells i n rc \<and> s1 = ?S (Suc n)"
    if "n < m" for n s1
  proof -
    have n: "n < ncells" using that m by simp
    have src: "i * ncells + n < length rc"
      using chunk_index_bound[OF i(2) n] len by simp
    have ge: "ncells \<le> i * ncells" using i(1) by simp
    have nl: "n < length rc" using src by simp
    have ne: "i * ncells + n \<noteq> n" using ge n by simp
    have 1: "?S n ! n = rc ! n" using nl by (simp add: nth_merge_chunk)
    have 2: "?S n ! (i * ncells + n) = rc ! (i * ncells + n)"
      using src by (simp add: nth_merge_chunk)
    have c: "checks_j ncells i n (?S n) = checks_j ncells i n rc"
      by (simp add: checks_j_def 1 2)
    show ?thesis
      using reduce_j_Inr_iff[of n "?S n" i ncells s1] nl ne src
      by (simp add: length_merge_chunk 1 2 c merge_chunk_Suc)
  qed
  have "for_loop [0..<m] (reduce_j ncells i) (?S 0) = Inr s' \<longleftrightarrow>
        (\<forall>n. 0 \<le> n \<and> n < m \<longrightarrow> checks_j ncells i n rc) \<and> s' = ?S m"
    by (rule for_loop_upt_Inr_iff) (simp_all add: step)
  then show ?thesis by (simp add: merge_chunk_0)
qed

lemma reduced_upto_0: "reduced_upto ncells 0 rc = rc"
  by (rule nth_equalityI) (simp_all add: reduced_upto_def)

lemma length_reduced_upto: "length (reduced_upto ncells i rc) = length rc"
  by (simp add: reduced_upto_def)

lemma nth_reduced_upto:
  "n < length rc \<Longrightarrow> reduced_upto ncells i rc ! n =
     (if n < ncells then partial_sum rc ncells n i else rc ! n)"
  by (simp add: reduced_upto_def)

lemma merge_reduced_upto:
  assumes len: "length rc = ncells * sz" and i: "Suc i < sz"
  shows "merge_chunk ncells (Suc i) ncells (reduced_upto ncells i rc) =
         reduced_upto ncells (Suc i) rc"
proof (rule nth_equalityI)
  show "length (merge_chunk ncells (Suc i) ncells (reduced_upto ncells i rc)) =
        length (reduced_upto ncells (Suc i) rc)"
    by (simp add: length_merge_chunk length_reduced_upto)
next
  fix n
  assume "n < length (merge_chunk ncells (Suc i) ncells (reduced_upto ncells i rc))"
  then have nl: "n < length rc" by (simp add: length_merge_chunk length_reduced_upto)
  show "merge_chunk ncells (Suc i) ncells (reduced_upto ncells i rc) ! n =
        reduced_upto ncells (Suc i) rc ! n"
  proof (cases "n < ncells")
    case True
    have src: "Suc i * ncells + n < length rc"
      using chunk_index_bound[OF i True] len by simp
    have "\<not> Suc i * ncells + n < ncells" by simp
    then show ?thesis
      using True nl src
      by (simp add: nth_merge_chunk length_reduced_upto nth_reduced_upto del: mult_Suc)
  next
    case False
    then show ?thesis
      using nl by (simp add: nth_merge_chunk length_reduced_upto nth_reduced_upto)
  qed
qed

lemma reduce_cells_Inr_iff:
  assumes len: "length rc = ncells * sz" and sz: "1 \<le> sz"
  shows "reduce_cells sz ncells rc = Inr s' \<longleftrightarrow>
         (\<forall>i. 1 \<le> i \<and> i < sz \<longrightarrow>
            (\<forall>j<ncells. checks_j ncells i j (reduced_upto ncells (i - 1) rc))) \<and>
         s' = reduced_upto ncells (sz - 1) rc"
proof -
  let ?S = "\<lambda>i. reduced_upto ncells (i - 1) rc"
  have step: "for_loop [0..<ncells] (reduce_j ncells i) (?S i) = Inr s1 \<longleftrightarrow>
        (\<forall>j<ncells. checks_j ncells i j (?S i)) \<and> s1 = ?S (Suc i)"
    if i1: "1 \<le> i" and i2: "i < sz" for i s1
  proof -
    obtain i' where i': "i = Suc i'" using i1 by (cases i) auto
    have "length (?S i) = ncells * sz" by (simp add: length_reduced_upto len)
    from reduce_j_loop[OF this i1 i2 order_refl, of s1]
    show ?thesis
      using merge_reduced_upto[OF len, of i'] i2 by (simp add: i')
  qed
  have "for_loop [1..<sz] (\<lambda>i. for_loop [0..<ncells] (reduce_j ncells i)) (?S 1) = Inr s' \<longleftrightarrow>
        (\<forall>i. 1 \<le> i \<and> i < sz \<longrightarrow> (\<forall>j<ncells. checks_j ncells i j (?S i))) \<and> s' = ?S sz"
  proof (rule for_loop_upt_Inr_iff)
    fix n s1
    assume "1 \<le> n" "n < sz"
    then show "for_loop [0..<ncells] (reduce_j ncells n) (?S n) = Inr s1 \<longleftrightarrow>
        (\<forall>j<ncells. checks_j ncells n j (?S n)) \<and> s1 = ?S (Suc n)"
      by (rule step)
  qed (rule sz)
  then show ?thesis
    by (simp add: reduce_cells_def reduced_upto_0)
qed


lemma partial_sum_meta:
  "position (partial_sum rc ncells j i) = position (rc ! j)"
  "bmin (partial_sum rc ncells j i) = bmin (rc ! j)"
  "bmax (partial_sum rc ncells j i) = bmax (rc ! j)"
  "cell_id (partial_sum rc ncells j i) = cell_id (rc ! j)"
  by (induction i; simp add: add_tensors_def)+

lemma partial_sum_fc:
  "fc (partial_sum rc ncells j i) = (\<Sum>p\<leftarrow>[0..<Suc i]. fc (rc ! (p * ncells + j)))"
  by (induction i) (simp_all add: add_tensors_def)

lemma partial_sum_dfcdr:
  "k < 9 \<Longrightarrow>
   dfcdr (partial_sum rc ncells j i) k = (\<Sum>p\<leftarrow>[0..<Suc i]. dfcdr (rc ! (p * ncells + j)) k)"
  by (induction i) (simp_all add: add_tensors_def)

lemma partial_sum_dfcdrdr:
  "k < 27 \<Longrightarrow>
   dfcdrdr (partial_sum rc ncells j i) k = (\<Sum>p\<leftarrow>[0..<Suc i]. dfcdrdr (rc ! (p * ncells + j)) k)"
  by (induction i) (simp_all add: add_tensors_def)

lemma checks_j_reduced_upto:
  assumes len: "length rc = ncells * sz" and i: "Suc i < sz" and j: "j < ncells"
  shows "checks_j ncells (Suc i) j (reduced_upto ncells i rc) \<longleftrightarrow>
         position (rc ! j) = position (rc ! (Suc i * ncells + j)) \<and>
         cell_id (rc ! j) = cell_id (rc ! (Suc i * ncells + j)) \<and>
         (\<forall>k<27. (\<Sum>p\<leftarrow>[0..<Suc (Suc i)]. dfcdrdr (rc ! (p * ncells + j)) k) < 1000)"
proof -
  have src: "Suc i * ncells + j < length rc"
    using chunk_index_bound[OF i j] len by simp
  have jl: "j < length rc" using src by simp
  have ge: "\<not> Suc i * ncells + j < ncells" by simp
  have 1: "reduced_upto ncells i rc ! j = partial_sum rc ncells j i"
    using jl j by (simp add: nth_reduced_upto)
  have 2: "reduced_upto ncells i rc ! (Suc i * ncells + j) = rc ! (Suc i * ncells + j)"
    using src ge by (simp only: nth_reduced_upto if_False)
  define T where "T k = (\<Sum>p\<leftarrow>[0..<Suc (Suc i)]. dfcdrdr (rc ! (p * ncells + j)) k)" for k
  have 3: "dfcdrdr (partial_sum rc ncells j i) k + dfcdrdr (rc ! (Suc i * ncells + j)) k = T k"
    if "k < 27" for k
    using partial_sum_dfcdrdr[OF that, of rc ncells j i] by (simp add: T_def)
  show ?thesis
    unfolding checks_j_def 1 2 partial_sum_meta list_all_iff T_def[symmetric]
    using 3 by auto
qed

lemma reduce_cells_ok_iff:
  assumes len: "length rc = ncells * sz" and sz: "1 \<le> sz"
  shows "reduce_cells sz ncells rc = Inr s' \<longleftrightarrow>
         (\<forall>i j. 1 \<le> i \<and> i < sz \<and> j < ncells \<longrightarrow>
            position (rc ! j) = position (rc ! (i * ncells + j)) \<and>
            cell_id (rc ! j) = cell_id (rc ! (i * ncells + j)) \<and>
            (\<forall>k<27. (\<Sum>p\<leftarrow>[0..<Suc i]. dfcdrdr (rc ! (p * ncells + j)) k) < 1000)) \<and>
         s' = reduced_upto ncells (sz - 1) rc"
proof -
  have "(\<forall>i. 1 \<le> i \<and> i < sz \<longrightarrow>
            (\<forall>j<ncells. checks_j ncells i j (reduced_upto ncells (i - 1) rc))) \<longleftrightarrow>
        (\<forall>i j. 1 \<le> i \<and> i < sz \<and> j < ncells \<longrightarrow>
            position (rc ! j) = position (rc ! (i * ncells + j)) \<and>
            cell_id (rc ! j) = cell_id (rc ! (i * ncells + j)) \<and>
            (\<forall>k<27. (\<Sum>p\<leftarrow>[0..<Suc i]. dfcdrdr (rc ! (p * ncells + j)) k) < 1000))"
    (is "?L \<longleftrightarrow> ?R")
  proof
    assume L: ?L
    show ?R
    proof (intro allI impI)
      fix i j
      assume a: "1 \<le> i \<and> i < sz \<and> j < ncells"
      then obtain i' where i': "i = Suc i'" by (cases i) auto
      from L a have "checks_j ncells i j (reduced_upto ncells (i - 1) rc)" by blast
      then show "position (rc ! j) = position (rc ! (i * ncells + j)) \<and>
            cell_id (rc ! j) = cell_id (rc ! (i * ncells + j)) \<and>
            (\<forall>k<27. (\<Sum>p\<leftarrow>[0..<Suc i]. dfcdrdr (rc ! (p * ncells + j)) k) < 1000)"
        using checks_j_reduced_upto[OF len, of i' j] a unfolding i' by simp
    qed
  next
    assume R: ?R
    show ?L
    proof (intro allI impI)
      fix i j
      assume a: "1 \<le> i \<and> i < sz" and j: "j < ncells"
      then obtain i' where i': "i = Suc i'" by (cases i) auto
      from R a j have "position (rc ! j) = position (rc ! (i * ncells + j)) \<and>
            cell_id (rc ! j) = cell_id (rc ! (i * ncells + j)) \<and>
            (\<forall>k<27. (\<Sum>p\<leftarrow>[0..<Suc i]. dfcdrdr (rc ! (p * ncells + j)) k) < 1000)" by blast
      then show "checks_j ncells i j (reduced_upto ncells (i - 1) rc)"
        using checks_j_reduced_upto[OF len, of i' j] a j unfolding i' by simp
    qed
  qed
  then show ?thesis
    unfolding reduce_cells_Inr_iff[OF len sz] by simp
qed


lemma upt_0_2: "[0..<2] = [0, 1]" "[0..<Suc 1] = [0, 1]"
  by (simp_all add: upt_rec)

lemma example_chunks_reduce:
  "reduce_cells 2 1 [example_chunk0, example_chunk1] =
     Inr (reduced_upto 1 1 [example_chunk0, example_chunk1])"
proof -
  let ?rc = "[example_chunk0, example_chunk1]"
  have len: "length ?rc = 1 * 2" and sz: "(1::nat) \<le> 2" by simp_all
  have chk: "\<forall>i j. 1 \<le> i \<and> i < 2 \<and> j < 1 \<longrightarrow>
            position (?rc ! j) = position (?rc ! (i * 1 + j)) \<and>
            cell_id (?rc ! j) = cell_id (?rc ! (i * 1 + j)) \<and>
            (\<forall>k<27. (\<Sum>p\<leftarrow>[0..<Suc i]. dfcdrdr (?rc ! (p * 1 + j)) k) < 1000)"
  proof (intro allI impI)
    fix i j :: nat
    assume "1 \<le> i \<and> i < 2 \<and> j < 1"
    then have ij: "i = 1" "j = 0" by auto
    show "position (?rc ! j) = position (?rc ! (i * 1 + j)) \<and>
            cell_id (?rc ! j) = cell_id (?rc ! (i * 1 + j)) \<and>
            (\<forall>k<27. (\<Sum>p\<leftarrow>[0..<Suc i]. dfcdrdr (?rc ! (p * 1 + j)) k) < 1000)"
      unfolding ij
      by (simp add: example_chunk0_def example_chunk1_def upt_0_2(1))
  qed
  have "reduce_cells 2 1 ?rc = Inr (reduced_upto 1 (2 - 1) ?rc)"
    unfolding reduce_cells_ok_iff[OF len sz] using chk by blast
  then show ?thesis by simp
qed

text \<open>
  C3, as stated, fails for the boxes: the reduction asserts equal positions and equal
  identifiers only. The two chunks below agree on position and identifier and differ in
  \<open>bmin\<close> and \<open>bmax\<close>; the reduction goes through.
\<close>

theorem reduce_cells_ignores_box:
  "bmin example_chunk0 \<noteq> bmin example_chunk1 \<and> bmax example_chunk0 \<noteq> bmax example_chunk1 \<and>
   \<not> isl (reduce_cells 2 1 [example_chunk0, example_chunk1])"
proof -
  have "bmin example_chunk0 \<noteq> bmin example_chunk1" "bmax example_chunk0 \<noteq> bmax example_chunk1"
    by (simp_all add: example_chunk0_def example_chunk1_def)
  moreover have "\<not> isl (reduce_cells 2 1 [example_chunk0, example_chunk1])"
    using example_chunks_reduce by simp
  ultimately show ?thesis by blast
qed

text \<open>
  C3, amended. When the reduction goes through, every peer chunk agreed with chunk 0 on
  the position and the identifier of every owned slot (a disagreement stops the step at
  the assertion, before the sum); the position, box and identifier of an owned slot are
  left as chunk 0 had them, and \<open>fc\<close>, the 9 slots of \<open>dfcdr\<close> and the 27 slots of
  \<open>dfcdrdr\<close> are the sums over all chunks. The boxes are not compared.
\<close>

theorem reduce_cells_sums:
  assumes "length recvcells = ncells * sz" and "1 \<le> sz"
    and "reduce_cells sz ncells recvcells = Inr r" and "j < ncells"
  shows "(\<forall>i. 1 \<le> i \<and> i < sz \<longrightarrow>
            position (recvcells ! (i * ncells + j)) = position (recvcells ! j) \<and>
            cell_id (recvcells ! (i * ncells + j)) = cell_id (recvcells ! j)) \<and>
         position (r ! j) = position (recvcells ! j) \<and>
         bmin (r ! j) = bmin (recvcells ! j) \<and>
         bmax (r ! j) = bmax (recvcells ! j) \<and>
         cell_id (r ! j) = cell_id (recvcells ! j) \<and>
         fc (r ! j) = (\<Sum>i\<leftarrow>[0..<sz]. fc (recvcells ! (i * ncells + j))) \<and>
         (\<forall>k<9. dfcdr (r ! j) k = (\<Sum>i\<leftarrow>[0..<sz]. dfcdr (recvcells ! (i * ncells + j)) k)) \<and>
         (\<forall>k<27. dfcdrdr (r ! j) k = (\<Sum>i\<leftarrow>[0..<sz]. dfcdrdr (recvcells ! (i * ncells + j)) k))"
proof -
  obtain n where n: "sz = Suc n" using assms(2) by (cases sz) auto
  have jl: "j < length recvcells"
    using chunk_index_bound[of 0 sz j ncells] assms(1,2,4) by simp
  from assms(3) have ok: "\<forall>i j. 1 \<le> i \<and> i < sz \<and> j < ncells \<longrightarrow>
            position (recvcells ! j) = position (recvcells ! (i * ncells + j)) \<and>
            cell_id (recvcells ! j) = cell_id (recvcells ! (i * ncells + j)) \<and>
            (\<forall>k<27. (\<Sum>p\<leftarrow>[0..<Suc i]. dfcdrdr (recvcells ! (p * ncells + j)) k) < 1000)"
    and r: "r = reduced_upto ncells (sz - 1) recvcells"
    unfolding reduce_cells_ok_iff[OF assms(1,2)] by blast+
  have rj: "r ! j = partial_sum recvcells ncells j n"
    using jl assms(4) by (simp add: r n nth_reduced_upto)
  have "\<forall>i. 1 \<le> i \<and> i < sz \<longrightarrow>
            position (recvcells ! (i * ncells + j)) = position (recvcells ! j) \<and>
            cell_id (recvcells ! (i * ncells + j)) = cell_id (recvcells ! j)"
    using ok assms(4) by simp
  then show ?thesis
    unfolding rj partial_sum_meta partial_sum_fc n
    using partial_sum_dfcdr[of _ recvcells ncells j n] partial_sum_dfcdrdr[of _ recvcells ncells j n]
    by (simp add: n)
qed

theorem reduce_cells_sums_witness:
  "\<exists>r. reduce_cells 2 1 [example_chunk0, example_chunk1] = Inr r \<and>
       position example_chunk1 = position example_chunk0 \<and>
       cell_id example_chunk1 = cell_id example_chunk0 \<and>
       bmin (r ! 0) = Point 0 0 0 \<and> bmax (r ! 0) = Point 2 2 2 \<and>
       fc (r ! 0) = Point 3 0 0 \<and> dfcdrdr (r ! 0) 2 = 900"
proof -
  let ?r = "reduced_upto 1 1 [example_chunk0, example_chunk1]"
  have "length [example_chunk0, example_chunk1] = 1 * 2" "(1::nat) \<le> 2" "(0::nat) < 1"
    by simp_all
  from reduce_cells_sums[OF this(1,2) example_chunks_reduce this(3)]
  have "position example_chunk1 = position example_chunk0 \<and>
       cell_id example_chunk1 = cell_id example_chunk0 \<and>
       bmin (?r ! 0) = Point 0 0 0 \<and> bmax (?r ! 0) = Point 2 2 2 \<and>
       fc (?r ! 0) = Point 3 0 0 \<and> dfcdrdr (?r ! 0) 2 = 900"
    by (simp add: example_chunk0_def example_chunk1_def upt_0_2(1))
  with example_chunks_reduce show ?thesis by blast
qed

text \<open>
  C10. If, after some peer chunk \<open>i \<ge> 1\<close> has been added, some component \<open>k\<close> of the
  partially reduced Hessian of some owned slot \<open>j\<close> is 1000 or more, the reduction stops
  at a failed assertion. With a single process no peer chunk is added and nothing is
  compared with 1000.
\<close>

theorem reduce_cells_hessian_bound:
  assumes "length recvcells = ncells * sz"
    and "1 \<le> i" "i < sz" "j < ncells" "k < 27"
    and "1000 \<le> (\<Sum>p\<leftarrow>[0..<Suc i]. dfcdrdr (recvcells ! (p * ncells + j)) k)"
  shows "isl (reduce_cells sz ncells recvcells)"
proof (rule ccontr)
  assume "\<not> isl (reduce_cells sz ncells recvcells)"
  then obtain r where r: "reduce_cells sz ncells recvcells = Inr r"
    by (cases "reduce_cells sz ncells recvcells") simp_all
  have sz: "1 \<le> sz" using assms(2,3) by simp
  from r[unfolded reduce_cells_ok_iff[OF assms(1) sz]] assms(2-5)
  have "(\<Sum>p\<leftarrow>[0..<Suc i]. dfcdrdr (recvcells ! (p * ncells + j)) k) < 1000" by blast
  with assms(6) show False by simp
qed

theorem reduce_cells_hessian_bound_witness:
  "(1000::real) \<le> dfcdrdr example_chunk0 2 + dfcdrdr example_chunk2 2 \<and>
   isl (reduce_cells 2 1 [example_chunk0, example_chunk2])"
proof -
  have s: "(\<Sum>p\<leftarrow>[0..<Suc 1]. dfcdrdr ([example_chunk0, example_chunk2] ! (p * 1 + 0)) 2) =
        dfcdrdr example_chunk0 2 + dfcdrdr example_chunk2 2"
    by (simp add: upt_0_2(1))
  have b: "(1000::real) \<le> dfcdrdr example_chunk0 2 + dfcdrdr example_chunk2 2"
    by (simp add: example_chunk0_def example_chunk2_def)
  have "length [example_chunk0, example_chunk2] = 1 * 2" "(1::nat) \<le> 1" "(1::nat) < 2"
    "(0::nat) < 1" "(2::nat) < 27"
    by simp_all
  from reduce_cells_hessian_bound[OF this, unfolded s, OF b] b show ?thesis by simp
qed


section \<open>The gravity step\<close>

lemma add_acceleration_zero: "add_acceleration p 0 st = st"
  by (simp add: add_acceleration_def)

lemma taylor_spec_zero: "taylor_spec sp (0, (\<lambda>_. 0), (\<lambda>_. 0)) pos = 0"
  by (simp add: taylor_spec_def zero_point_t_def Let_def)

lemma distance_self: "distance p p = 0"
  by (simp add: distance_def)

lemma direct_sum_single: "direct_sum_body [b] b st = st"
  by (simp add: direct_sum_body_def distance_self add_acceleration_zero)

lemma mpi_cell_tensors:
  "fc (mpi_cell p lo hi i) = 0" "dfcdr (mpi_cell p lo hi i) = (\<lambda>_. 0)"
  "dfcdrdr (mpi_cell p lo hi i) = (\<lambda>_. 0)" "position (mpi_cell p lo hi i) = p"
  "bmin (mpi_cell p lo hi i) = lo" "bmax (mpi_cell p lo hi i) = hi"
  "cell_id (mpi_cell p lo hi i) = i"
  by (simp_all add: mpi_cell_def)

lemma single_leaf_exchange:
  assumes "comm_rank env = 0" "comm_size env = 1"
    and "tree s = Branch i p m lo hi True es cs"
  shows "mpi_exchange_cells env maxMass s =
     Inr (s\<lparr>recvCOM := (if m = 0 then [] else [mpi_cell p lo hi i]),
            nrecvCOM := [(if m = 0 then 0 else 1) * sizeof_mpi_cell_t]\<rparr>)"
  using assms by (simp add: mpi_exchange_cells_def Let_def fits_int_iff sizeof_mpi_cell_t_def)

lemma single_leaf_compute_cell:
  assumes "m \<noteq> 0"
  shows "compute_cell (Branch i p m lo hi True es cs) null_id macangle (mpi_cell p lo hi i) out =
     Inr (mpi_cell p lo hi i,
          same_id_line (Branch null_id p 0 lo hi True [] []) (Branch i p m lo hi True es cs) out)"
  by (simp add: compute_cell_def Let_def mpi_cell_tensors c2c_unfold c2c_filtered_def)

lemma fold_add_zero: "fold (\<lambda>bi. add_acceleration (getBody bi) 0) hs st = st"
  by (induction hs) (simp_all add: add_acceleration_zero)

lemma leaf_gather_cell:
  assumes "0 < m" "filter is_local es \<noteq> []"
  shows "gather_cell (Branch i p m lo hi True es cs) (mpi_cell p lo hi i) (st, n) =
     Inr (fold (direct_sum_body (map getBody (filter is_local es)))
            (map getBody (filter is_local es)) st,
          n + int (length (filter is_local es)))"
  using assms
  by (simp add: gather_cell_def mpi_cell_tensors sink_traversal_c2p_visited c2p_apply_def
      taylor_spec_zero fold_add_zero)

lemma reduce_cells_single: "reduce_cells (Suc 0) ncells rc = Inr rc"
  by (simp add: reduce_cells_def)

lemma leaf_step:
  assumes "comm_rank env = 0" "comm_size env = 1"
    and "tree s = Branch i p m lo hi True es cs" and "0 < m" and "filter is_local es \<noteq> []"
  shows "\<exists>s'. gravity_step env maxMass macangle null_id s = Inr s' \<and> tree s' = tree s \<and>
     bodies s' = fold (direct_sum_body (map getBody (filter is_local es)))
                   (map getBody (filter is_local es)) (bodies s)"
  unfolding gravity_step_def single_leaf_exchange[OF assms(1-3)]
  using assms(1,2,3,4)
  by (simp add: mpi_compute_fmm_def mpi_gather_cells_def Let_def reduce_cells_single
        single_leaf_compute_cell sizeof_mpi_cell_t_def fits_int_iff
        leaf_gather_cell[OF assms(4,5)])

lemma single_leaf_step:
  assumes "comm_rank env = 0" "comm_size env = 1"
    and "tree s = Branch i p m lo hi True [h] cs" and "0 \<le> m" and "is_local h"
  shows "\<exists>s'. gravity_step env maxMass macangle null_id s = Inr s' \<and> bodies s' = bodies s"
proof (cases "m = 0")
  case True
  show ?thesis
    unfolding gravity_step_def single_leaf_exchange[OF assms(1-3)]
    using True assms(1,2)
    by (simp add: mpi_compute_fmm_def mpi_gather_cells_def Let_def reduce_cells_single
        fits_int_iff)
next
  case False
  then have m: "0 < m" using assms(4) by simp
  have l: "filter is_local [h] \<noteq> []" using assms(5) by simp
  from leaf_step[OF assms(1-3) m l, of maxMass macangle null_id]
  show ?thesis using assms(5) by (auto simp: direct_sum_single)
qed











lemma mpi_exchange_cells_frame:
  "mpi_exchange_cells env maxMass s = Inr s' \<Longrightarrow> tree s' = tree s \<and> bodies s' = bodies s"
  by (auto simp: mpi_exchange_cells_def Let_def split: if_splits)

lemma mpi_compute_fmm_frame:
  "mpi_compute_fmm null_id macangle s = Inr s' \<Longrightarrow> tree s' = tree s \<and> bodies s' = bodies s"
  by (auto simp: mpi_compute_fmm_def split: sum.splits)




text \<open>
  C8. One process, a tree whose root is a leaf holding a single body that the process
  owns, and a root mass that is not negative: the gravity step goes through and leaves
  the body store as it was, so zero is added to the acceleration of the body. The frontier
  cell of the root meets the root itself in the traversal and is filtered as the same
  box, its tensors stay zero, and the direct sum has no partner at a positive distance.
\<close>

theorem single_body_no_self_interaction:
  assumes "comm_rank env = 0" "comm_size env = 1"
    and "tree s = Branch i p m lo hi True [h] []" and "0 \<le> m" and "is_local h"
  shows "\<exists>s'. gravity_step env maxMass macangle null_id s = Inr s' \<and>
     getAcceleration (bodies s' (getBody h)) = getAcceleration (bodies s (getBody h)) + 0 \<and>
     bodies s' = bodies s"
  using single_leaf_step[OF assms, of maxMass macangle null_id] by auto

theorem single_body_no_self_interaction_witness:
  "comm_rank example_env = 0 \<and> comm_size example_env = 1 \<and> is_local example_holder \<and>
   (\<exists>s'. gravity_step example_env 1 1 0 example_single_state = Inr s' \<and>
         getAcceleration (bodies s' 0) = Point 5 0 0)"
proof -
  have "comm_rank example_env = 0" "comm_size example_env = 1"
    "tree example_single_state =
       Branch 1 (Point 1 1 1) 2 (Point 0 0 0) (Point 2 2 2) True [example_holder] []"
    "(0::real) \<le> 2" "is_local example_holder"
    by (simp_all add: example_env_def example_single_state_def example_holder_def)
  from single_body_no_self_interaction[OF this, of 1 1 0] this(1,2,5)
  show ?thesis by (auto simp: example_single_state_def example_holder_def)
qed

section \<open>Additive writes\<close>

text \<open>
  Had every stored acceleration been larger by some amount before a phase, it would be
  larger by the same amount after it, and nothing else would differ: what a phase adds to
  an acceleration does not depend on the accelerations stored.
\<close>

lemma shift_acc_frame:
  "getPosition_b (shift_acc c st n) = getPosition_b (st n)"
  "getMass_b (shift_acc c st n) = getMass_b (st n)"
  "getAcceleration (shift_acc c st n) = getAcceleration (st n) + c n"
  by (simp_all add: shift_acc_def)

lemma add_acceleration_shift:
  "add_acceleration p d (shift_acc c st) = shift_acc c (add_acceleration p d st)"
  by (rule ext) (simp add: add_acceleration_def shift_acc_def ac_simps)

text \<open>
  The write of the source is the setter applied to what the getter returns plus the
  increment. The setter applied to a value that does not come from the getter is not
  additive.
\<close>

lemma add_acceleration_setter:
  "add_acceleration p d st = setAcceleration p (getAcceleration (st p) + d) st"
  by (simp add: add_acceleration_def setAcceleration_def)

lemma setAcceleration_not_additive:
  assumes "c p \<noteq> 0"
  shows "setAcceleration p v (shift_acc c st) \<noteq> shift_acc c (setAcceleration p v st)"
proof
  assume "setAcceleration p v (shift_acc c st) = shift_acc c (setAcceleration p v st)"
  then have "getAcceleration (setAcceleration p v (shift_acc c st) p) =
             getAcceleration (shift_acc c (setAcceleration p v st) p)" by simp
  then have "v = v + c p" by (simp add: setAcceleration_def shift_acc_def)
  then have "v + 0 = v + c p" by simp
  then have "c p = 0" by (simp only: add_left_cancel)
  with assms show False by simp
qed

lemma direct_sum_body_shift:
  "direct_sum_body sp bi (shift_acc c st) = shift_acc c (direct_sum_body sp bi st)"
  unfolding direct_sum_body_def Let_def shift_acc_frame by (rule add_acceleration_shift)

lemma fold_direct_sum_shift:
  "fold (direct_sum_body sp) xs (shift_acc c st) = shift_acc c (fold (direct_sum_body sp) xs st)"
  by (induction xs arbitrary: st) (simp_all add: direct_sum_body_shift)

lemma fold_add_acceleration_shift:
  "fold (\<lambda>bi. add_acceleration (getBody bi) (a bi)) hs (shift_acc c st) =
   shift_acc c (fold (\<lambda>bi. add_acceleration (getBody bi) (a bi)) hs st)"
  by (induction hs arbitrary: st) (simp_all add: add_acceleration_shift)

lemma gather_cell_shift:
  "gather_cell tree_root cell (shift_acc c st, n) =
     (case gather_cell tree_root cell (st, n) of
        Inl e \<Rightarrow> Inl e | Inr (st', n') \<Rightarrow> Inr (shift_acc c st', n'))"
  by (simp add: gather_cell_def sink_traversal_c2p_visited c2p_apply_def
      fold_add_acceleration_shift fold_direct_sum_shift split: option.splits)

lemma for_loop_gather_shift:
  "for_loop xs (\<lambda>i. gather_cell tree_root (cells ! i)) (shift_acc c st, n) =
     (case for_loop xs (\<lambda>i. gather_cell tree_root (cells ! i)) (st, n) of
        Inl e \<Rightarrow> Inl e | Inr (st', n') \<Rightarrow> Inr (shift_acc c st', n'))"
proof (induction xs arbitrary: st n)
  case Nil
  then show ?case by simp
next
  case (Cons x xs)
  show ?case
  proof (cases "gather_cell tree_root (cells ! x) (st, n)")
    case (Inl e)
    then show ?thesis by (simp add: gather_cell_shift)
  next
    case (Inr a)
    obtain st1 n1 where a: "a = (st1, n1)" by (cases a)
    show ?thesis by (simp add: gather_cell_shift Inr a Cons.IH)
  qed
qed

lemma mpi_gather_cells_shift:
  "mpi_gather_cells env (s\<lparr>bodies := shift_acc c (bodies s)\<rparr>) = shifted c (mpi_gather_cells env s)"
  by (simp add: mpi_gather_cells_def Let_def shifted_def for_loop_gather_shift
      split: sum.splits prod.splits cong del: if_weak_cong)

lemma mpi_exchange_cells_bodies:
  "mpi_exchange_cells env maxMass (s\<lparr>bodies := b\<rparr>) =
     (case mpi_exchange_cells env maxMass s of Inl e \<Rightarrow> Inl e | Inr s' \<Rightarrow> Inr (s'\<lparr>bodies := b\<rparr>))"
  by (simp add: mpi_exchange_cells_def Let_def)

lemma mpi_compute_fmm_bodies:
  "mpi_compute_fmm null_id macangle (s\<lparr>bodies := b\<rparr>) =
     (case mpi_compute_fmm null_id macangle s of Inl e \<Rightarrow> Inl e | Inr s' \<Rightarrow> Inr (s'\<lparr>bodies := b\<rparr>))"
  by (simp add: mpi_compute_fmm_def split: sum.splits prod.splits)

lemma gravity_step_shift:
  "gravity_step env maxMass macangle null_id (s\<lparr>bodies := shift_acc c (bodies s)\<rparr>) =
     shifted c (gravity_step env maxMass macangle null_id s)"
proof (cases "mpi_exchange_cells env maxMass s")
  case (Inl e)
  then show ?thesis by (simp add: gravity_step_def mpi_exchange_cells_bodies shifted_def)
next
  case s1: (Inr s1)
  have b1: "bodies s1 = bodies s" using mpi_exchange_cells_frame[OF s1] by simp
  show ?thesis
  proof (cases "mpi_compute_fmm null_id macangle s1")
    case (Inl e)
    then show ?thesis
      by (simp add: gravity_step_def mpi_exchange_cells_bodies mpi_compute_fmm_bodies s1 shifted_def)
  next
    case s2: (Inr s2)
    have b2: "bodies s2 = bodies s" using mpi_compute_fmm_frame[OF s2] b1 by simp
    show ?thesis
      using mpi_gather_cells_shift[where env = env and s = s2 and c = c]
      by (simp add: gravity_step_def mpi_exchange_cells_bodies mpi_compute_fmm_bodies s1 s2 b2)
  qed
qed

section \<open>The tree in memory\<close>

text \<open>
  The setters do write: applied to the root of a tree, \<open>setPosition\<close> changes what the
  accessor returns.
\<close>

lemma setPosition_writes: "getPosition (load (setPosition a v mem) (At a ls)) = v"
  by (simp add: setPosition_def)






















end
